theory Spec2Isabelle
  imports Complex_Main
begin

section \<open>Spike-train tools of neurotools.py\<close>

text \<open>
  The module works on Python and numpy floats. Here a time, a rate or a potential is a
  \<^typ>\<open>real\<close>: the rounding of a value, overflow and the physical unit attached by
  the simulator (\<open>second\<close>, \<open>volt\<close>, which multiply by one) are not part of the model.
  The functions that index a trace or a grid (the slope estimators, the spike-triggered
  average and the binning functions) turn a float quotient into an integer (an index, a
  number of bins or of samples) or compare a time with a float product. There the
  rounding decides the result, and the float operations that lead to it are a parameter
  \<open>fl\<close> of these functions. The random
  number generator of numpy is a parameter: \<open>exponential scale k\<close> and
  \<open>normal scale k\<close> stand for the value that the \<open>k\<close>-th draw of
  \<open>random.exponential(scale)\<close> and of \<open>random.normal(0, scale)\<close> delivers, and every
  function that draws takes the number of draws made so far and returns the new count.
  A function that raises returns \<open>Inl\<close> of the exception; a loop that may go on forever
  returns \<open>None\<close> when it does.
\<close>

subsection \<open>Exceptions and numpy helpers\<close>

datatype py_error = TypeError | ValueError | IndexError | DivByZero | Unmodelled

text \<open>
  The first three are exceptions of Python. The other two mark where the model stops and
  says nothing about the code: \<open>DivByZero\<close> marks a float division by zero whose
  result decides the control flow or an index (Python floats raise there and numpy
  floats go on with \<open>inf\<close> or \<open>nan\<close>), and \<open>Unmodelled\<close> marks a container that numpy
  treats differently from one version to the next, or a float that \<open>astype(int)\<close>
  cannot hold.
\<close>

text \<open>\<open>int(x)\<close> of a float \<open>x\<close>: truncation towards zero, to an integer of any size.\<close>

definition py_int :: "real \<Rightarrow> int" where
  "py_int x = (if 0 \<le> x then \<lfloor>x\<rfloor> else \<lceil>x\<rceil>)"

text \<open>
  \<open>xs.astype(int)\<close>: truncation towards zero to a 64-bit integer. What the cast makes
  of a float beyond the range of these integers depends on the machine, and the model
  stops there.
\<close>

definition astype_int :: "real \<Rightarrow> py_error + int" where
  "astype_int x =
     (if - (2 ^ 63) \<le> py_int x \<and> py_int x < 2 ^ 63 then Inr (py_int x) else Inl Unmodelled)"

fun np_astype_int :: "real list \<Rightarrow> py_error + int list" where
  "np_astype_int [] = Inr []"
| "np_astype_int (x # xs) =
     (case astype_int x of
        Inl e \<Rightarrow> Inl e
      | Inr i \<Rightarrow> (case np_astype_int xs of Inl e \<Rightarrow> Inl e | Inr idx \<Rightarrow> Inr (i # idx)))"

text \<open>
  The float operations whose rounded result decides an index, a length or a count:
  \<open>fl_add fl a b\<close>, \<open>fl_sub fl a b\<close>, \<open>fl_mul fl a b\<close> and \<open>fl_div fl a b\<close> stand
  for the floats that \<open>a + b\<close>, \<open>a - b\<close>, \<open>a * b\<close> and \<open>a / b\<close> deliver in the code.
\<close>

record float_ops =
  fl_add :: "real \<Rightarrow> real \<Rightarrow> real"
  fl_sub :: "real \<Rightarrow> real \<Rightarrow> real"
  fl_mul :: "real \<Rightarrow> real \<Rightarrow> real"
  fl_div :: "real \<Rightarrow> real \<Rightarrow> real"

text \<open>
  The floats of Python and numpy are binary doubles: 53 binary digits, a result being
  rounded to the nearest double and, half way between two, to the one whose last digit
  is even. \<open>binade n x\<close> is the exponent \<open>e\<close> with \<open>2^e \<le> x < 2^(e+1)\<close> of a positive
  \<open>x\<close>, found in at most \<open>n\<close> halvings or doublings, and \<open>to_double x\<close> the double
  nearest to \<open>x\<close>, for an \<open>x\<close> within the range of the normal doubles.
\<close>

fun binade :: "nat \<Rightarrow> real \<Rightarrow> int" where
  "binade 0 x = 0"
| "binade (Suc n) x =
     (if 2 \<le> x then binade n (x / 2) + 1
      else if x < 1 then binade n (2 * x) - 1
      else 0)"

definition round_half_even :: "real \<Rightarrow> int" where
  "round_half_even x =
     (let f = \<lfloor>x\<rfloor>
      in if x - of_int f < 1 / 2 then f
         else if 1 / 2 < x - of_int f then f + 1
         else if even f then f else f + 1)"

definition to_double :: "real \<Rightarrow> real" where
  "to_double x =
     (if x = 0 then 0
      else (let ulp = 2 powi (binade 1100 \<bar>x\<bar> - 52)
            in sgn x * of_int (round_half_even (\<bar>x\<bar> / ulp)) * ulp))"

text \<open>
  The float operations of the machine, with which the examples are run: a time such as
  \<open>0.0003\<close> stands for the double that the literal denotes, and so every operand is
  taken as the double nearest to it and the result is rounded.
\<close>

definition ieee :: float_ops where
  "ieee = \<lparr>fl_add = (\<lambda>a b. to_double (to_double a + to_double b)),
            fl_sub = (\<lambda>a b. to_double (to_double a - to_double b)),
            fl_mul = (\<lambda>a b. to_double (to_double a * to_double b)),
            fl_div = (\<lambda>a b. to_double (to_double a / to_double b))\<rparr>"

text \<open>\<open>diff(xs)\<close>: the differences of neighbours.\<close>

fun np_diff :: "real list \<Rightarrow> real list" where
  "np_diff (x # y # xs) = (y - x) # np_diff (y # xs)"
| "np_diff xs = []"

text \<open>\<open>cumsum(xs)\<close>: the running sums, \<open>acc\<close> being the sum so far.\<close>

fun cumsum_from :: "real \<Rightarrow> real list \<Rightarrow> real list" where
  "cumsum_from acc [] = []"
| "cumsum_from acc (x # xs) = (acc + x) # cumsum_from (acc + x) xs"

definition np_cumsum :: "real list \<Rightarrow> real list" where
  "np_cumsum xs = cumsum_from 0 xs"

text \<open>
  \<open>min(xs)\<close> of a sequence that is not empty (the loop below asks for it only then),
  and \<open>where(xs == m)[0][0]\<close>: the first position that holds \<open>m\<close>.
\<close>

fun list_min :: "real list \<Rightarrow> real" where
  "list_min [] = 0"
| "list_min [x] = x"
| "list_min (x # xs) = min x (list_min xs)"

fun first_index :: "real list \<Rightarrow> real \<Rightarrow> nat" where
  "first_index [] m = 0"
| "first_index (x # xs) m = (if x = m then 0 else Suc (first_index xs m))"

subsection \<open>Jitter operator\<close>

text \<open>
  The correction loop of \<open>add_gauss_jitter\<close>:
  \<^verbatim>\<open>
    while min(intervals) < dt/second:
        index = where(intervals == min(intervals))[0][0]
        intervals[index]+=dt/second
  \<close>
  \<open>min\<close> of an empty array raises ValueError.
\<close>

partial_function (option) widen_intervals :: "real \<Rightarrow> real list \<Rightarrow> (py_error + real list) option" where
  "widen_intervals dt intervals =
     (if intervals = [] then Some (Inl ValueError)
      else if list_min intervals < dt
        then (let index = first_index intervals (list_min intervals)
              in widen_intervals dt (intervals[index := intervals ! index + dt]))
        else Some (Inr intervals))"

declare widen_intervals.simps [code]

text \<open>
  \<open>add_gauss_jitter(spiketrain, jitter, dt)\<close>. \<open>random.normal\<close> refuses a negative
  scale with ValueError. The result carries the number of normal draws made.
\<close>

definition add_gauss_jitter ::
  "real list \<Rightarrow> real \<Rightarrow> real \<Rightarrow> (real \<Rightarrow> nat \<Rightarrow> real) \<Rightarrow> nat \<Rightarrow> (py_error + real list \<times> nat) option" where
  "add_gauss_jitter spiketrain jitter dt normal k =
     (if jitter = 0 then Some (Inr (spiketrain, k))
      else if jitter < 0 then Some (Inl ValueError)
      else
        (let n = length spiketrain;
             jspiketrain = map (\<lambda>i. spiketrain ! i + normal jitter (k + i)) [0..<n];
             sorted_train = sort jspiketrain;
             intervals = np_diff sorted_train
         in (case widen_intervals dt intervals of
               None \<Rightarrow> None
             | Some (Inl e) \<Rightarrow> Some (Inl e)
             | Some (Inr widened) \<Rightarrow> Some (Inr (np_cumsum widened, k + n)))))"

subsection \<open>Poisson train generator\<close>

text \<open>
  \<open>poisson_spikes(dura, rate, dt)\<close>, first loop: draw until a clamped interval lies below
  the duration.
  \<^verbatim>\<open>
    while len(spiketrain) == 0:
        newinterval = random.exponential(1./rate)*second
        if newinterval < dt:
            newinterval = dt
        if newinterval < dura:
            spiketrain = [newinterval]
  \<close>
\<close>

partial_function (option) first_interval ::
  "real \<Rightarrow> real \<Rightarrow> real \<Rightarrow> (real \<Rightarrow> nat \<Rightarrow> real) \<Rightarrow> nat \<Rightarrow> (real list \<times> nat) option" where
  "first_interval dura rate dt exponential k =
     (let drawn = exponential (1 / rate) k;
          newinterval = (if drawn < dt then dt else drawn)
      in if newinterval < dura then Some ([newinterval], Suc k)
         else first_interval dura rate dt exponential (Suc k))"

declare first_interval.simps [code]

text \<open>
  Second loop: append spikes while the last one lies below the duration. \<open>spiketrain[-1]\<close>
  of an empty list raises IndexError.
\<close>

partial_function (option) more_spikes ::
  "real \<Rightarrow> real \<Rightarrow> real \<Rightarrow> (real \<Rightarrow> nat \<Rightarrow> real) \<Rightarrow> real list \<Rightarrow> nat \<Rightarrow> (py_error + real list \<times> nat) option" where
  "more_spikes dura rate dt exponential spiketrain k =
     (if spiketrain = [] then Some (Inl IndexError)
      else if last spiketrain < dura
        then (let drawn = exponential (1 / rate) k;
                  newinterval = (if drawn < dt then dt else drawn)
              in more_spikes dura rate dt exponential (spiketrain @ [last spiketrain + newinterval]) (Suc k))
        else Some (Inr (spiketrain, k)))"

declare more_spikes.simps [code]

text \<open>The whole function; \<open>spiketrain[:-1]\<close> drops the spike that crossed the duration.\<close>

definition poisson_spikes ::
  "real \<Rightarrow> real \<Rightarrow> real \<Rightarrow> (real \<Rightarrow> nat \<Rightarrow> real) \<Rightarrow> nat \<Rightarrow> (py_error + real list \<times> nat) option" where
  "poisson_spikes dura rate dt exponential k =
     (if rate = 0 then Some (Inl DivByZero)
      else (case first_interval dura rate dt exponential k of
              None \<Rightarrow> None
            | Some (spiketrain, k1) \<Rightarrow>
               (case more_spikes dura rate dt exponential spiketrain k1 of
                  None \<Rightarrow> None
                | Some (Inl e) \<Rightarrow> Some (Inl e)
                | Some (Inr (spiketrain2, k2)) \<Rightarrow> Some (Inr (butlast spiketrain2, k2)))))"

text \<open>A train whose neighbours are at least \<open>dt\<close> apart.\<close>

definition spaced :: "real \<Rightarrow> real list \<Rightarrow> bool" where
  "spaced dt st = (\<forall>i. Suc i < length st \<longrightarrow> st ! i + dt \<le> st ! Suc i)"

subsection \<open>Synchrony composer\<close>

text \<open>
  The two loops of \<open>sync_inp\<close>, each run a given number of times:
  \<^verbatim>\<open>
    for i in range(n_ident):
        spiketrains.append(add_gauss_jitter(st_ident,sigma,dt))
    for i in range(n_ident,n):
        spiketrains.append(poisson_spikes(dura,rate,dt))
  \<close>
\<close>

fun jittered_copies ::
  "nat \<Rightarrow> real list \<Rightarrow> real \<Rightarrow> real \<Rightarrow> (real \<Rightarrow> nat \<Rightarrow> real) \<Rightarrow> nat \<Rightarrow> (py_error + real list list \<times> nat) option" where
  "jittered_copies 0 st_ident sigma dt normal k = Some (Inr ([], k))"
| "jittered_copies (Suc m) st_ident sigma dt normal k =
     (case add_gauss_jitter st_ident sigma dt normal k of
        None \<Rightarrow> None
      | Some (Inl e) \<Rightarrow> Some (Inl e)
      | Some (Inr (train, k1)) \<Rightarrow>
         (case jittered_copies m st_ident sigma dt normal k1 of
            None \<Rightarrow> None
          | Some (Inl e) \<Rightarrow> Some (Inl e)
          | Some (Inr (trains, k2)) \<Rightarrow> Some (Inr (train # trains, k2))))"

fun independent_trains ::
  "nat \<Rightarrow> real \<Rightarrow> real \<Rightarrow> real \<Rightarrow> (real \<Rightarrow> nat \<Rightarrow> real) \<Rightarrow> nat \<Rightarrow> (py_error + real list list \<times> nat) option" where
  "independent_trains 0 dura rate dt exponential k = Some (Inr ([], k))"
| "independent_trains (Suc m) dura rate dt exponential k =
     (case poisson_spikes dura rate dt exponential k of
        None \<Rightarrow> None
      | Some (Inl e) \<Rightarrow> Some (Inl e)
      | Some (Inr (train, k1)) \<Rightarrow>
         (case independent_trains m dura rate dt exponential k1 of
            None \<Rightarrow> None
          | Some (Inl e) \<Rightarrow> Some (Inl e)
          | Some (Inr (trains, k2)) \<Rightarrow> Some (Inr (train # trains, k2))))"

text \<open>
  \<open>sync_inp(n, rate, s, sigma, dura, dt)\<close>. The result is the list of warnings raised
  with \<open>warn\<close> and the outcome of the rest of the call; \<open>ke\<close> and \<open>kn\<close> count the
  exponential and the normal draws made before the call. \<open>range(a, b)\<close> runs
  \<open>b - a\<close> times, and not at all when that is negative.
\<close>

definition sync_inp ::
  "int \<Rightarrow> real \<Rightarrow> real \<Rightarrow> real \<Rightarrow> real \<Rightarrow> real \<Rightarrow> (real \<Rightarrow> nat \<Rightarrow> real) \<Rightarrow> (real \<Rightarrow> nat \<Rightarrow> real) \<Rightarrow> nat \<Rightarrow> nat
     \<Rightarrow> string list \<times> (py_error + real list list) option" where
  "sync_inp n rate s sigma dura dt exponential normal ke kn =
     (let warnings = (if \<not> (0 \<le> s \<and> s \<le> 1)
                      then [''Synchrony should be between 0 and 1. Setting to 1.''] else []);
          s1 = (if \<not> (0 \<le> s \<and> s \<le> 1) then 1 else s);
          n_ident = \<lfloor>real_of_int n * s1\<rfloor>
      in (warnings,
          (case poisson_spikes dura rate dt exponential ke of
             None \<Rightarrow> None
           | Some (Inl e) \<Rightarrow> Some (Inl e)
           | Some (Inr (st_ident, ke1)) \<Rightarrow>
              (case jittered_copies (nat n_ident) st_ident sigma dt normal kn of
                 None \<Rightarrow> None
               | Some (Inl e) \<Rightarrow> Some (Inl e)
               | Some (Inr (copies, kn1)) \<Rightarrow>
                  (case independent_trains (nat (n - n_ident)) dura rate dt exponential ke1 of
                     None \<Rightarrow> None
                   | Some (Inl e) \<Rightarrow> Some (Inl e)
                   | Some (Inr (fresh, ke2)) \<Rightarrow> Some (Inr (copies @ fresh)))))))"

text \<open>
  A generator object made by \<open>sync_inp_gen(n, rate, jitter, dt)\<close>: calling the generator
  function runs none of its body, so the object is the frame of its arguments.
\<close>

record generator =
  gen_n :: int
  gen_rate :: real
  gen_jitter :: real
  gen_dt :: real

definition sync_inp_gen :: "int \<Rightarrow> real \<Rightarrow> real \<Rightarrow> real \<Rightarrow> generator" where
  "sync_inp_gen n rate jitter dt = \<lparr>gen_n = n, gen_rate = rate, gen_jitter = jitter, gen_dt = dt\<rparr>"

text \<open>
  \<open>SynchronousInputGroup.configure_generators(n, rate, sync, jitter, dt)\<close>. The list it
  returns holds the one object \<open>st_ident\<close> \<open>n_ident\<close> times and a new object for every
  other train. An entry is the identity of the object (0 for \<open>st_ident\<close>, then one number
  per object in the order of creation) and the object.
\<close>

definition configure_generators ::
  "int \<Rightarrow> real \<Rightarrow> real \<Rightarrow> real \<Rightarrow> real \<Rightarrow> string list \<times> (nat \<times> generator) list" where
  "configure_generators n rate sync jitter dt =
     (let warnings = (if \<not> (0 \<le> sync \<and> sync \<le> 1)
                      then [''Synchrony should be between 0 and 1. Setting to 0''] else []);
          sync1 = (if \<not> (0 \<le> sync \<and> sync \<le> 1) then 0 else sync);
          n_ident = \<lfloor>real_of_int n * sync1\<rfloor>;
          st_ident = (0, sync_inp_gen n_ident rate jitter dt)
      in (warnings,
          replicate (nat n_ident) st_ident
          @ map (\<lambda>j. (Suc j, sync_inp_gen 1 rate 0 dt)) [0..<nat (n - n_ident)]))"

text \<open>A source of exponential draws for the examples: 0.6, 0.6, 0.3, 0.9, 0.5 and then 0.7.\<close>

definition six_draws :: "real \<Rightarrow> nat \<Rightarrow> real" where
  "six_draws scale k = (if k < 2 then 3 / 5 else if k = 2 then 3 / 10 else if k = 3 then 9 / 10
                        else if k = 4 then 1 / 2 else 7 / 10)"

text \<open>
  A source whose every exponential draw is eight times the scale, and a source whose
  every normal draw is zero.
\<close>

definition steady_draws :: "real \<Rightarrow> nat \<Rightarrow> real" where
  "steady_draws scale k = scale * 8"

definition no_shifts :: "real \<Rightarrow> nat \<Rightarrow> real" where
  "no_shifts scale k = 0"

text \<open>A source of normal draws for the examples: one, minus one and then two standard
  deviations.\<close>

definition three_shifts :: "real \<Rightarrow> nat \<Rightarrow> real" where
  "three_shifts scale k = scale * (if k = 0 then 1 else if k = 1 then - 1 else 2)"

subsection \<open>Float values that may not be finite\<close>

text \<open>
  A numpy division by zero does not raise: it delivers \<open>inf\<close> or \<open>nan\<close> and the
  computation goes on. Where a function returns such values, a value is a
  \<^typ>\<open>real option\<close>: \<open>None\<close> is a value that is not a finite number, or that was
  computed from one.
\<close>

definition np_divide :: "real \<Rightarrow> real \<Rightarrow> real option" where
  "np_divide a b = (if b = 0 then None else Some (a / b))"

definition lift2 :: "(real \<Rightarrow> real \<Rightarrow> real) \<Rightarrow> real option \<Rightarrow> real option \<Rightarrow> real option" where
  "lift2 f x y = (case x of None \<Rightarrow> None | Some a \<Rightarrow> (case y of None \<Rightarrow> None | Some b \<Rightarrow> Some (f a b)))"

subsection \<open>Irregularity measures\<close>

text \<open>
  The loop of \<open>CV2\<close> over the neighbouring intervals, \<open>mi_total\<close> being the sum so far:
  \<^verbatim>\<open>
    for i in range(N-1):
        mi_total = mi_total + abs(isi[i]-isi[i+1])/(isi[i]+isi[i+1])
  \<close>
\<close>

fun CV2_loop :: "real option \<Rightarrow> real list \<Rightarrow> real option" where
  "CV2_loop mi_total (a # b # isi) =
     CV2_loop (lift2 (+) mi_total (np_divide \<bar>a - b\<bar> (a + b))) (b # isi)"
| "CV2_loop mi_total isi = mi_total"

text \<open>\<open>CV2(spiketrain)\<close>; it returns \<open>mi_total*2/N\<close>, with \<open>N\<close> the number of intervals.\<close>

definition CV2 :: "real list \<Rightarrow> real option" where
  "CV2 spiketrain =
     (let isi = np_diff spiketrain; N = length isi
      in if N = 0 then Some 0
         else map_option (\<lambda>mi_total. mi_total * 2 / real N) (CV2_loop (Some 0) isi))"

text \<open>
  In the words of the specification, not of the code: the mean, over the pairs of
  neighbouring intervals, of \<open>2 |a - b| / (a + b)\<close>, that is their sum divided by the
  number of pairs.
\<close>

definition CV2_pair_mean :: "real list \<Rightarrow> real" where
  "CV2_pair_mean isi =
     (\<Sum>i = 0..<length isi - 1. 2 * \<bar>isi ! i - isi ! Suc i\<bar> / (isi ! i + isi ! Suc i))
       / real (length isi - 1)"

subsection \<open>Indexing a numpy array\<close>

text \<open>
  \<open>xs[i]\<close> for an integer \<open>i\<close>: a negative index counts from the end, and an index
  outside \<open>-len(xs) .. len(xs) - 1\<close> raises IndexError. \<open>xs[idx]\<close> for an array of
  indices reads every one of them.
\<close>

definition np_get :: "real list \<Rightarrow> int \<Rightarrow> py_error + real" where
  "np_get xs i =
     (let n = int (length xs)
      in if 0 \<le> i \<and> i < n then Inr (xs ! nat i)
         else if - n \<le> i \<and> i < 0 then Inr (xs ! nat (n + i))
         else Inl IndexError)"

fun np_take :: "real list \<Rightarrow> int list \<Rightarrow> py_error + real list" where
  "np_take xs [] = Inr []"
| "np_take xs (i # idx) =
     (case np_get xs i of
        Inl e \<Rightarrow> Inl e
      | Inr v \<Rightarrow> (case np_take xs idx of Inl e \<Rightarrow> Inl e | Inr vs \<Rightarrow> Inr (v # vs)))"

text \<open>
  \<open>mean(xs)\<close>: the mean of no value is \<open>nan\<close>, and so is not finite; the mean of values
  of which one is not finite is not finite.
\<close>

fun all_finite :: "real option list \<Rightarrow> real list option" where
  "all_finite [] = Some []"
| "all_finite (None # xs) = None"
| "all_finite (Some x # xs) = map_option ((#) x) (all_finite xs)"

definition np_mean :: "real option list \<Rightarrow> real option" where
  "np_mean xs =
     (if xs = [] then None
      else map_option (\<lambda>vs. sum_list vs / real (length vs)) (all_finite xs))"

definition fdiv :: "real option \<Rightarrow> real option \<Rightarrow> real option" where
  "fdiv x y = (case x of None \<Rightarrow> None | Some a \<Rightarrow> (case y of None \<Rightarrow> None | Some b \<Rightarrow> np_divide a b))"

subsection \<open>Slope estimators\<close>

text \<open>
  The windows of \<open>firing_slope\<close>, for a window \<open>w\<close> that is already at least \<open>dt\<close>:
  \<^verbatim>\<open>
    intervals = diff(spiketrain)
    intervals = insert(intervals, 0, spiketrain[0])
    windows = array([min(w, i*second-dt) for i in intervals])
  \<close>
  The function has returned before these lines when the train is empty. The windows
  become indices, and so the differences are float differences.
\<close>

fun fl_diff :: "float_ops \<Rightarrow> real list \<Rightarrow> real list" where
  "fl_diff fl (x # y # xs) = fl_sub fl y x # fl_diff fl (y # xs)"
| "fl_diff fl xs = []"

definition firing_windows :: "float_ops \<Rightarrow> real \<Rightarrow> real \<Rightarrow> real list \<Rightarrow> real list" where
  "firing_windows fl w dt spiketrain =
     (case spiketrain of
        [] \<Rightarrow> []
      | t0 # later \<Rightarrow>
         (let intervals = t0 # fl_diff fl spiketrain
          in map (\<lambda>i. min w (fl_sub fl i dt)) intervals))"

text \<open>
  \<open>firing_slope(mem, spiketrain, dt, w)\<close>. Its result is the mean slope and the slopes.
  The indices are the float quotients \<open>spiketrain/dt\<close> and \<open>windows/dt\<close>, cast by
  \<open>astype(int)\<close>. With \<open>dt = 0\<close> they would be casts of \<open>inf\<close> or \<open>nan\<close>.
\<close>

definition firing_slope ::
  "float_ops \<Rightarrow> real list \<Rightarrow> real list \<Rightarrow> real \<Rightarrow> real
     \<Rightarrow> py_error + real option \<times> real option list" where
  "firing_slope fl mem spiketrain dt w =
     (let w1 = max w dt
      in if length spiketrain < 2 then Inr (Some 0, [])
         else if dt = 0 then Inl DivByZero
         else
           (let windows = firing_windows fl w1 dt spiketrain
            in (case np_astype_int (map (\<lambda>t. fl_div fl t dt) spiketrain) of
                  Inl e \<Rightarrow> Inl e
                | Inr st_dt \<Rightarrow>
                   (case np_astype_int (map (\<lambda>x. fl_div fl x dt) windows) of
                      Inl e \<Rightarrow> Inl e
                    | Inr w_dt \<Rightarrow>
                       (case np_take mem st_dt of
                          Inl e \<Rightarrow> Inl e
                        | Inr at_spike \<Rightarrow>
                           (case np_take mem (map2 (-) st_dt w_dt) of
                              Inl e \<Rightarrow> Inl e
                            | Inr at_start \<Rightarrow>
                               (let slopes = map2 np_divide (map2 (-) at_spike at_start) windows
                                in Inr (np_mean slopes, slopes))))))))"

text \<open>
  \<open>norm_firing_slope(mem, spiketrain, th, tau, dt, w)\<close>. The arithmetic on the arrays
  \<open>ISIs\<close>, \<open>min_input\<close>, \<open>lowstart\<close> and \<open>slope_min\<close> is written out value by value;
  these arrays have one value per interval of the retained train, and so has
  \<open>slopes[1:]\<close>.
\<close>

definition norm_firing_slope ::
  "float_ops \<Rightarrow> real list \<Rightarrow> real list \<Rightarrow> real \<Rightarrow> real \<Rightarrow> real \<Rightarrow> real
     \<Rightarrow> py_error + real option \<times> real option list" where
  "norm_firing_slope fl mem spiketrain th tau dt w =
     (let w1 = (if w < dt then dt else w)
      in if length spiketrain < 2 then Inr (Some 0, [])
         else
           (let retained = filter (\<lambda>t. w1 < t) spiketrain
            in (case firing_slope fl mem retained dt w1 of
                  Inl e \<Rightarrow> Inl e
                | Inr (mslope, slopes) \<Rightarrow>
                   (case retained of
                      [] \<Rightarrow> Inl IndexError
                    | first_spike # later \<Rightarrow>
                       if dt = 0 then Inl DivByZero
                       else
                         (case np_get mem (py_int (fl_div fl first_spike dt) + 1) of
                            Inl e \<Rightarrow> Inl e
                          | Inr reset \<Rightarrow>
                             (let slope_max = np_divide (th - reset) w1;
                                  ISIs = np_diff retained;
                                  min_input = map (\<lambda>isi. fdiv (Some (th - reset))
                                      (map_option (\<lambda>q. 1 - exp q) (np_divide (- isi) tau))) ISIs;
                                  lowstart = map2 (\<lambda>isi m. lift2 (+) (Some reset)
                                      (lift2 (*) m (map_option (\<lambda>q. 1 - exp q) (np_divide (- (isi - w1)) tau))))
                                      ISIs min_input;
                                  slope_min = map (\<lambda>l. fdiv (map_option (\<lambda>v. th - v) l) (Some w1)) lowstart;
                                  slopes_normed = map2 (\<lambda>s lo. fdiv (lift2 (-) s lo) (lift2 (-) slope_max lo))
                                      (tl slopes) slope_min
                              in Inr (np_mean slopes_normed, slopes_normed)))))))"

subsection \<open>Allocation, slices and assignment of numpy arrays\<close>

text \<open>
  \<open>zeros(n)\<close> refuses a negative length with ValueError. A slice \<open>v[a:b]\<close> with
  \<open>0 \<le> a\<close> and \<open>0 \<le> b\<close> is cut to the array; \<open>v[:b]\<close> with a negative \<open>b\<close> leaves
  out the last \<open>-b\<close> values. The assignment \<open>wins[i,:] = x\<close> to a row of length \<open>w_d\<close>
  takes an \<open>x\<close> of that length, spreads an \<open>x\<close> of length one over the row, and raises
  ValueError for any other length.
\<close>

definition np_zeros :: "int \<Rightarrow> py_error + real list" where
  "np_zeros n = (if n < 0 then Inl ValueError else Inr (replicate (nat n) 0))"

definition py_slice :: "real list \<Rightarrow> int \<Rightarrow> int \<Rightarrow> real list" where
  "py_slice v a b = take (nat (b - a)) (drop (nat a) v)"

definition py_slice_to :: "real list \<Rightarrow> int \<Rightarrow> real list" where
  "py_slice_to v b = (if 0 \<le> b then take (nat b) v else take (nat (int (length v) + b)) v)"

definition np_set_row :: "nat \<Rightarrow> real list \<Rightarrow> py_error + real list" where
  "np_set_row w_d x =
     (if length x = w_d then Inr x
      else if length x = 1 then Inr (replicate w_d (hd x))
      else Inl ValueError)"

subsection \<open>Spike-triggered average\<close>

text \<open>
  The loop of \<open>sta\<close> over the spikes, one row per spike; \<open>st/dt\<close> is a float
  quotient:
  \<^verbatim>\<open>
    for i, st in enumerate(spiketrain):
        t_d = int(st/dt)
        if (w_d < t_d):
            w_start = t_d-w_d
            w_end = t_d
            sta_wins[i,:] = v[w_start:w_end]
        else:
            w_start = 0
            w_end = t_d
            curwin = append(zeros(w_d-t_d), v[:t_d])
            sta_wins[i,:] = curwin
  \<close>
\<close>

fun sta_rows ::
  "float_ops \<Rightarrow> real list \<Rightarrow> int \<Rightarrow> real \<Rightarrow> real list \<Rightarrow> py_error + real list list" where
  "sta_rows fl v w_d dt [] = Inr []"
| "sta_rows fl v w_d dt (st # rest) =
     (let t_d = py_int (fl_div fl st dt);
          curwin = (if w_d < t_d then py_slice v (t_d - w_d) t_d
                    else replicate (nat (w_d - t_d)) 0 @ py_slice_to v t_d)
      in (case np_set_row (nat w_d) curwin of
            Inl e \<Rightarrow> Inl e
          | Inr row \<Rightarrow>
             (case sta_rows fl v w_d dt rest of
                Inl e \<Rightarrow> Inl e
              | Inr rows \<Rightarrow> Inr (row # rows))))"

text \<open>\<open>mean(sta_wins, 0)\<close> and \<open>std(sta_wins, 0)\<close>, for one column.\<close>

definition column_mean :: "real list list \<Rightarrow> nat \<Rightarrow> real" where
  "column_mean rows j = sum_list (map (\<lambda>r. r ! j) rows) / real (length rows)"

definition column_std :: "real list list \<Rightarrow> nat \<Rightarrow> real" where
  "column_std rows j =
     sqrt (sum_list (map (\<lambda>r. (r ! j - column_mean rows j)\<^sup>2) rows) / real (length rows))"

text \<open>
  \<open>sta(v, spiketrain, w, dt)\<close>: the average window, its standard deviation and the
  windows. \<open>w_d = int(w/dt)\<close> is the float quotient truncated, and
  \<open>zeros((len(spiketrain), w_d))\<close> refuses a negative \<open>w_d\<close>.
\<close>

definition sta ::
  "float_ops \<Rightarrow> real list \<Rightarrow> real list \<Rightarrow> real \<Rightarrow> real
     \<Rightarrow> py_error + real list \<times> real list \<times> real list list" where
  "sta fl v spiketrain w dt =
     (if length spiketrain \<le> 1 then Inr ([], [], [])
      else if dt = 0 then Inl DivByZero
      else
        (let w_d = py_int (fl_div fl w dt)
         in if w_d < 0 then Inl ValueError
            else (case sta_rows fl v w_d dt spiketrain of
                    Inl e \<Rightarrow> Inl e
                  | Inr sta_wins \<Rightarrow>
                     Inr (map (column_mean sta_wins) [0..<nat w_d],
                          map (column_std sta_wins) [0..<nat w_d],
                          sta_wins))))"

subsection \<open>Binning\<close>

text \<open>
  \<open>max(st)\<close> of an integer array that is not empty, and \<open>bintimes[st] = 1\<close>: every index must
  lie in \<open>-len .. len - 1\<close>, or the assignment raises IndexError; a negative index
  counts from the end.
\<close>

fun int_max :: "int list \<Rightarrow> int" where
  "int_max [] = 0"
| "int_max [x] = x"
| "int_max (x # xs) = max x (int_max xs)"

definition np_put_ones :: "real list \<Rightarrow> int list \<Rightarrow> py_error + real list" where
  "np_put_ones xs idx =
     (let n = int (length xs)
      in if list_all (\<lambda>i. - n \<le> i \<and> i < n) idx
         then Inr (fold (\<lambda>i ys. ys[nat (if i < 0 then i + n else i) := 1]) idx xs)
         else Inl IndexError)"

text \<open>
  \<open>times_to_bin(spikes, dt, duration)\<close>, with \<open>duration = None\<close> as \<open>None\<close>. The bin
  of a spike is the float quotient \<open>divide(spikes, dt)\<close> cast by \<open>astype('int')\<close>, and
  the number of bins is \<open>int(duration/dt)\<close>. For a train without spikes and a given
  duration the function calls \<open>zeros(duration/dt)\<close> on the float; the numpy this
  Python 2 module was written for truncates it to an integer.
\<close>

definition times_to_bin ::
  "float_ops \<Rightarrow> real list \<Rightarrow> real \<Rightarrow> real option \<Rightarrow> py_error + real list" where
  "times_to_bin fl spikes dt duration =
     (if spikes = []
      then (case duration of
              None \<Rightarrow> Inr spikes
            | Some d \<Rightarrow> if dt = 0 then Inl DivByZero else np_zeros (py_int (fl_div fl d dt)))
      else if dt = 0 then Inl DivByZero
      else
        (case np_astype_int (map (\<lambda>t. fl_div fl t dt) spikes) of
           Inl e \<Rightarrow> Inl e
         | Inr st \<Rightarrow>
            (let binlength = (case duration of None \<Rightarrow> int_max st + 1 | Some d \<Rightarrow> py_int (fl_div fl d dt))
             in (case np_zeros binlength of
                   Inl e \<Rightarrow> Inl e
                 | Inr bintimes \<Rightarrow>
                    if st = [] then Inr bintimes
                    else
                      (let st1 = (if last st > binlength then filter (\<lambda>i. i < binlength) st else st)
                       in np_put_ones bintimes st1)))))"

subsection \<open>Containers of spike trains\<close>

text \<open>
  \<open>PSTH\<close> and \<open>times_to_bin_multi\<close> look at the type of their argument. An argument is
  a number, a list, a numpy array, a tuple, a dictionary (its entries in the order in
  which \<open>itervalues\<close> gives them) or \<open>None\<close>.
\<close>

datatype pyobj =
    Num real
  | PyList "pyobj list"
  | NdArray "pyobj list"
  | PyTuple "pyobj list"
  | PyDict "(real \<times> pyobj) list"
  | PyNone

text \<open>
  The items of a sequence; \<open>shape(x) == ()\<close> holds for an \<open>x\<close> that is not a sequence.
\<close>

fun seq_items :: "pyobj \<Rightarrow> pyobj list option" where
  "seq_items (PyList xs) = Some xs"
| "seq_items (NdArray xs) = Some xs"
| "seq_items (PyTuple xs) = Some xs"
| "seq_items x = None"

text \<open>
  numpy's \<open>array\<close> and \<open>shape\<close> take a nesting in which every number lies at the same
  depth, rows of different lengths included. For other nestings what they do depends on
  the version of numpy, and so the model stops with \<open>Unmodelled\<close>, which says nothing
  about the code. \<open>regular x\<close> holds when every number of \<open>x\<close> lies at the depth that
  is found by following the first items.
\<close>

fun nest_depth :: "pyobj \<Rightarrow> nat" where
  "nest_depth (PyList []) = 1"
| "nest_depth (PyList (x # xs)) = Suc (nest_depth x)"
| "nest_depth (NdArray []) = 1"
| "nest_depth (NdArray (x # xs)) = Suc (nest_depth x)"
| "nest_depth (PyTuple []) = 1"
| "nest_depth (PyTuple (x # xs)) = Suc (nest_depth x)"
| "nest_depth x = 0"

fun regular_at :: "nat \<Rightarrow> pyobj \<Rightarrow> bool" where
  "regular_at 0 x = (case x of Num r \<Rightarrow> True | _ \<Rightarrow> False)"
| "regular_at (Suc d) x = (case seq_items x of None \<Rightarrow> False | Some xs \<Rightarrow> list_all (regular_at d) xs)"

definition regular :: "pyobj \<Rightarrow> bool" where
  "regular x = regular_at (nest_depth x) x"

definition np_array :: "pyobj list \<Rightarrow> py_error + pyobj list" where
  "np_array xs = (if regular (PyList xs) then Inr xs else Inl Unmodelled)"

text \<open>
  \<open>[item for row in ndobject for item in row]\<close>: a number or \<open>None\<close> as a row raises
  TypeError, a dictionary gives its keys.
\<close>

fun iter_row :: "pyobj \<Rightarrow> py_error + pyobj list" where
  "iter_row (PyList xs) = Inr xs"
| "iter_row (NdArray xs) = Inr xs"
| "iter_row (PyTuple xs) = Inr xs"
| "iter_row (PyDict kvs) = Inr (map (\<lambda>kv. Num (fst kv)) kvs)"
| "iter_row x = Inl TypeError"

fun rows_items :: "pyobj list \<Rightarrow> py_error + pyobj list" where
  "rows_items [] = Inr []"
| "rows_items (row # rows) =
     (case iter_row row of
        Inl e \<Rightarrow> Inl e
      | Inr items \<Rightarrow> (case rows_items rows of Inl e \<Rightarrow> Inl e | Inr others \<Rightarrow> Inr (items @ others)))"

text \<open>\<open>recursiveflat(ndobject)\<close>, on the items of \<open>ndobject\<close>.\<close>

function recursiveflat :: "pyobj list \<Rightarrow> py_error + pyobj list" where
  "recursiveflat ndobject =
     (case ndobject of
        [] \<Rightarrow> Inr ndobject
      | first # others \<Rightarrow>
         if seq_items first = None then Inr ndobject
         else if \<not> regular first then Inl Unmodelled
         else (case rows_items ndobject of
                 Inl e \<Rightarrow> Inl e
               | Inr items \<Rightarrow> recursiveflat items))"
  by pat_completeness auto
termination
proof (relation "measure (size_list size)", goal_cases)
  case 1
  show ?case by simp
next
  case (2 ndobject first others items)
  have row: "size_list size xs \<le> size row" if "iter_row row = Inr xs" for row xs
    using that by (cases row) (auto simp: size_list_conv_sum_list o_def)
  have "rows_items rows = Inr xs \<Longrightarrow> rows \<noteq> [] \<Longrightarrow> size_list size xs < size_list size rows"
    for rows xs
  proof (induction rows arbitrary: xs)
    case Nil
    then show ?case by simp
  next
    case (Cons r rows)
    from Cons.prems(1) obtain a b where
      a: "iter_row r = Inr a" and b: "rows_items rows = Inr b" and i: "xs = a @ b"
      by (auto split: sum.splits)
    have "size_list size b \<le> size_list size rows"
    proof (cases "rows = []")
      case True
      with b show ?thesis by simp
    next
      case False
      with Cons.IH[OF b] show ?thesis by simp
    qed
    with row[OF a] show ?case by (simp add: i)
  qed
  from this[of ndobject items] 2 show ?case by simp
qed

text \<open>
  A flat sequence of numbers as a list of reals; \<open>max\<close> of a list that is not empty; and
  \<open>arange(start, stop, step)\<close>, which has \<open>ceil((stop - start)/step)\<close> values, the
  difference and the quotient being those of floats.
\<close>

fun numbers :: "pyobj list \<Rightarrow> real list option" where
  "numbers [] = Some []"
| "numbers (Num r # xs) = map_option ((#) r) (numbers xs)"
| "numbers (x # xs) = None"

fun real_max :: "real list \<Rightarrow> real" where
  "real_max [] = 0"
| "real_max [x] = x"
| "real_max (x # xs) = max x (real_max xs)"

definition np_arange :: "float_ops \<Rightarrow> real \<Rightarrow> real \<Rightarrow> real \<Rightarrow> real list" where
  "np_arange fl start stop step =
     map (\<lambda>k. start + real k * step) [0..<nat \<lceil>fl_div fl (fl_sub fl stop start) step\<rceil>]"

text \<open>
  The loop of \<open>PSTH\<close> over the bins, \<open>b*bin\<close> and \<open>(b+1)*bin\<close> being float products:
  \<^verbatim>\<open>
    for b in arange(0, nbins, 1):
        binspikes = bitwise_and(flatspikes >= b*bin,
                flatspikes < (b+1)*bin)
        psth[b] = count_nonzero(binspikes)
  \<close>
\<close>

definition psth_counts :: "float_ops \<Rightarrow> real \<Rightarrow> real list \<Rightarrow> nat \<Rightarrow> real list" where
  "psth_counts fl bin flatspikes nbins =
     map (\<lambda>b. real (length (filter (\<lambda>t. fl_mul fl (real b) bin \<le> t \<and> t < fl_mul fl (real b + 1) bin)
                              flatspikes)))
       [0..<nbins]"

text \<open>
  \<open>PSTH(spikes, bin, dt, duration)\<close>. \<open>array\<close> in this module is the function
  \<open>numpy.array\<close> and not a type, so that \<open>isinstance(spikes, array)\<close>, which is
  evaluated for every argument that is neither a dictionary nor a list, raises TypeError.
  The number of bins is the float quotient \<open>duration/bin\<close> truncated, the default
  duration \<open>max(flatspikes)+float(dt)\<close> being a float sum. The result is the left edges
  of the bins and the counts.
\<close>

definition PSTH ::
  "float_ops \<Rightarrow> pyobj \<Rightarrow> real \<Rightarrow> real \<Rightarrow> real option
     \<Rightarrow> py_error + real list \<times> real list" where
  "PSTH fl spikes bin dt duration =
     (let bin1 = (if bin < dt then dt else bin);
          converted = (case spikes of
                         PyDict kvs \<Rightarrow> np_array (map snd kvs)
                       | PyList xs \<Rightarrow> np_array xs
                       | _ \<Rightarrow> Inl TypeError)
      in (case converted of
            Inl e \<Rightarrow> Inl e
          | Inr spiketimes \<Rightarrow>
             (case recursiveflat spiketimes of
                Inl e \<Rightarrow> Inl e
              | Inr flat \<Rightarrow>
                 (case numbers flat of
                    None \<Rightarrow> Inl Unmodelled
                  | Some flatspikes \<Rightarrow>
                     (case (case duration of
                              None \<Rightarrow> if flatspikes = [] then Inl ValueError
                                       else Inr (fl_add fl (real_max flatspikes) dt)
                            | Some d \<Rightarrow> Inr d) of
                        Inl e \<Rightarrow> Inl e
                      | Inr duration1 \<Rightarrow>
                         if bin1 = 0 then Inl DivByZero
                         else
                           (let nbins = py_int (fl_div fl duration1 bin1)
                            in (case np_zeros nbins of
                                  Inl e \<Rightarrow> Inl e
                                | Inr psth \<Rightarrow>
                                   Inr (np_arange fl 0 duration1 bin1,
                                        psth_counts fl bin1 flatspikes (nat nbins)))))))))"

text \<open>
  What \<open>times_to_bin\<close> makes of one item of the container: \<open>len\<close> of a number or of
  \<open>None\<close> raises TypeError, a flat sequence of numbers is a train, and anything else is
  not followed.
\<close>

definition flat_train :: "pyobj list \<Rightarrow> py_error + real list" where
  "flat_train xs = (case numbers xs of None \<Rightarrow> Inl Unmodelled | Some train \<Rightarrow> Inr train)"

fun as_train :: "pyobj \<Rightarrow> py_error + real list" where
  "as_train (Num r) = Inl TypeError"
| "as_train PyNone = Inl TypeError"
| "as_train (PyDict kvs) = Inl Unmodelled"
| "as_train (PyList xs) = flat_train xs"
| "as_train (NdArray xs) = flat_train xs"
| "as_train (PyTuple xs) = flat_train xs"

text \<open>\<open>array([times_to_bin(st, dt=dt, duration=duration) for st in spiketimes])\<close>.\<close>

fun bin_trains ::
  "float_ops \<Rightarrow> pyobj list \<Rightarrow> real \<Rightarrow> real \<Rightarrow> py_error + real list list" where
  "bin_trains fl [] dt duration = Inr []"
| "bin_trains fl (st # rest) dt duration =
     (case as_train st of
        Inl e \<Rightarrow> Inl e
      | Inr train \<Rightarrow>
         (case times_to_bin fl train dt (Some duration) of
            Inl e \<Rightarrow> Inl e
          | Inr bins \<Rightarrow>
             (case bin_trains fl rest dt duration of
                Inl e \<Rightarrow> Inl e
              | Inr others \<Rightarrow> Inr (bins # others))))"

text \<open>\<open>times_to_bin_multi(spikes, dt, duration)\<close>.\<close>

definition times_to_bin_multi ::
  "float_ops \<Rightarrow> pyobj \<Rightarrow> real \<Rightarrow> real option \<Rightarrow> py_error + real list list" where
  "times_to_bin_multi fl spikes dt duration =
     (let converted = (case spikes of
                         PyDict kvs \<Rightarrow> np_array (map snd kvs)
                       | PyList xs \<Rightarrow> Inr xs
                       | _ \<Rightarrow> Inl TypeError)
      in (case converted of
            Inl e \<Rightarrow> Inl e
          | Inr spiketimes \<Rightarrow>
             (case (case duration of
                      None \<Rightarrow>
                       (case recursiveflat spiketimes of
                          Inl e \<Rightarrow> Inl e
                        | Inr flat \<Rightarrow>
                           (case numbers flat of
                              None \<Rightarrow> Inl Unmodelled
                            | Some flatspikes \<Rightarrow>
                               if flatspikes = [] then Inl ValueError
                               else Inr (fl_add fl (real_max flatspikes) dt)))
                    | Some d \<Rightarrow> Inr d) of
                Inl e \<Rightarrow> Inl e
              | Inr duration1 \<Rightarrow> bin_trains fl spiketimes dt duration1)))"



text \<open>Two trains for the examples: spikes at 1 and 2, and at 3 and 3.5.\<close>

definition two_trains :: "pyobj list" where
  "two_trains = [PyList [Num 1, Num 2], PyList [Num 3, Num (7 / 2)]]"

text \<open>
  The number of corrections that the loop of \<open>add_gauss_jitter\<close> still owes an interval
  \<open>x\<close>; their sum over the intervals decreases with every round of the loop.
\<close>

definition steps_needed :: "real \<Rightarrow> real \<Rightarrow> nat" where
  "steps_needed dt x = nat \<lceil>(dt - x) / dt\<rceil>"

section \<open>Properties\<close>

subsection \<open>Facts about the helpers\<close>

lemma np_diff_length: "length (np_diff xs) = length xs - 1"
  by (induction xs rule: np_diff.induct) auto

lemma np_diff_nth: "Suc i < length xs \<Longrightarrow> np_diff xs ! i = xs ! Suc i - xs ! i"
proof (induction xs arbitrary: i rule: np_diff.induct)
  case (1 x y xs)
  then show ?case by (cases i) auto
qed auto

lemma cumsum_from_length: "length (cumsum_from acc xs) = length xs"
  by (induction xs arbitrary: acc) auto

lemma list_min_in: "xs \<noteq> [] \<Longrightarrow> list_min xs \<in> set xs"
  by (induction xs rule: list_min.induct) (auto simp: min_def)

lemma list_min_le: "x \<in> set xs \<Longrightarrow> list_min xs \<le> x"
  by (induction xs rule: list_min.induct) (auto simp: min_def)

lemma first_index_finds: "m \<in> set xs \<Longrightarrow> first_index xs m < length xs \<and> xs ! first_index xs m = m"
  by (induction xs) auto

lemma py_int_nonneg: "0 \<le> x \<Longrightarrow> 0 \<le> py_int x"
  by (simp add: py_int_def)

lemma py_int_mono: "0 \<le> x \<Longrightarrow> x \<le> y \<Longrightarrow> py_int x \<le> py_int y"
  by (simp add: py_int_def floor_mono)

lemma sorted_le_last:
  assumes "sorted xs" and "x \<in> set xs"
  shows "x \<le> last (xs :: real list)"
proof -
  from assms(2) obtain i where i: "i < length xs" "xs ! i = x" by (auto simp: in_set_conv_nth)
  then have "xs \<noteq> []" by auto
  then have "last xs = xs ! (length xs - 1)" by (rule last_conv_nth)
  moreover have "xs ! i \<le> xs ! (length xs - 1)"
    using assms(1) i(1) by (intro sorted_nth_mono) auto
  ultimately show ?thesis using i(2) by simp
qed

subsection \<open>The doubles of the examples\<close>

text \<open>
  \<open>binade\<close> finds the exponent of a number whose exponent lies within its fuel, so
  that \<open>to_double x\<close> is the mantissa \<open>m\<close> times \<open>2^(e - 52)\<close> once the exponent \<open>e\<close>
  of \<open>x\<close> and the 53 digits \<open>m\<close> are known.
\<close>

lemma binade_eq:
  assumes "0 < x" and "2 powi e \<le> x" and "x < 2 powi (e + 1)" and "nat \<bar>e\<bar> \<le> n"
  shows "binade n x = e"
  using assms
proof (induction n arbitrary: x e)
  case 0
  then show ?case by simp
next
  case (Suc n)
  show ?case
  proof (cases "2 \<le> x")
    case True
    have "1 \<le> e"
    proof (rule ccontr)
      assume "\<not> 1 \<le> e"
      then have "e + 1 \<le> 1" by simp
      then have "(2::real) powi (e + 1) \<le> 2 powi 1" by (intro power_int_increasing) auto
      with Suc.prems(3) True show False by simp
    qed
    have a: "2 powi (e - 1) \<le> x / 2" using Suc.prems(2) by (simp add: power_int_diff)
    have b: "x / 2 < 2 powi (e - 1 + 1)" using Suc.prems(3) by (simp add: power_int_add)
    have "binade n (x / 2) = e - 1"
      using Suc.IH[OF _ a b] Suc.prems(1,4) \<open>1 \<le> e\<close> by simp
    with True show ?thesis by simp
  next
    case False
    show ?thesis
    proof (cases "x < 1")
      case True
      have "e \<le> - 1"
      proof (rule ccontr)
        assume "\<not> e \<le> - 1"
        then have "0 \<le> e" by simp
        then have "(2::real) powi 0 \<le> 2 powi e" by (intro power_int_increasing) auto
        with Suc.prems(2) True show False by simp
      qed
      have a: "2 powi (e + 1) \<le> 2 * x" using Suc.prems(2) by (simp add: power_int_add)
      have b: "2 * x < 2 powi (e + 1 + 1)" using Suc.prems(3) by (simp add: power_int_add)
      have "binade n (2 * x) = e + 1"
        using Suc.IH[OF _ a b] Suc.prems(1,4) \<open>e \<le> - 1\<close> by simp
      with True False show ?thesis by simp
    next
      case F2: False
      have "e = 0"
      proof (rule ccontr)
        assume "e \<noteq> 0"
        then consider "e \<le> - 1" | "1 \<le> e" by linarith
        then show False
        proof cases
          case 1
          then have "e + 1 \<le> 0" by simp
          then have "(2::real) powi (e + 1) \<le> 2 powi 0" by (intro power_int_increasing) auto
          with Suc.prems(3) F2 show False by simp
        next
          case 2
          then have "(2::real) powi 1 \<le> 2 powi e" by (intro power_int_increasing) auto
          with Suc.prems(2) False show False by simp
        qed
      qed
      with False F2 show ?thesis by simp
    qed
  qed
qed

lemma to_double_eval:
  assumes "0 < x" and "2 powi e \<le> x" and "x < 2 powi (e + 1)" and "nat \<bar>e\<bar> \<le> 1100"
    and "round_half_even (x / 2 powi (e - 52)) = m"
  shows "to_double x = of_int m * 2 powi (e - 52)"
proof -
  have "binade 1100 \<bar>x\<bar> = e" using assms(1-4) by (intro binade_eq) auto
  with assms(1,5) show ?thesis by (simp add: to_double_def Let_def)
qed

text \<open>
  A half of an integer below \<open>2^53\<close> is a double: the examples whose times are small
  integers and halves, on a grid of step one, are run without any rounding.
\<close>

lemma binade_spec:
  assumes "2 powi (- int n) \<le> x" and "x < 2 powi (int n + 1)"
  shows "2 powi (binade n x) \<le> x \<and> x < 2 powi (binade n x + 1)"
  using assms
proof (induction n arbitrary: x)
  case 0
  then show ?case by simp
next
  case (Suc n)
  show ?case
  proof (cases "2 \<le> x")
    case True
    have "(2::real) powi (- int n) \<le> 2 powi 0" by (intro power_int_increasing) auto
    with True have a: "2 powi (- int n) \<le> x / 2" by simp
    have b: "x / 2 < 2 powi (int n + 1)" using Suc.prems(2) by (simp add: power_int_add)
    from Suc.IH[OF a b] True show ?thesis by (simp add: power_int_add)
  next
    case False
    show ?thesis
    proof (cases "x < 1")
      case True
      have a: "2 powi (- int n) \<le> 2 * x" using Suc.prems(1) by (simp add: power_int_diff power_int_minus field_simps)
      have "(2::real) powi 1 \<le> 2 powi (int n + 1)" by (intro power_int_increasing) auto
      with True have b: "2 * x < 2 powi (int n + 1)" by simp
      from Suc.IH[OF a b] have
        c: "2 powi (binade n (2 * x)) \<le> 2 * x" "2 * x < 2 powi (binade n (2 * x) + 1)" by simp_all
      from c(1) have "2 powi (binade n (2 * x) - 1) \<le> x" by (simp add: power_int_diff)
      moreover from c(2) have "x < 2 powi (binade n (2 * x) - 1 + 1)" by (simp add: power_int_add)
      ultimately show ?thesis using True False by simp
    next
      case F: False
      with False show ?thesis by simp
    qed
  qed
qed

lemma round_half_even_int: "round_half_even (of_int n) = n"
  by (simp add: round_half_even_def)

lemma to_double_exact:
  assumes "2 * x \<in> \<int>" and "\<bar>x\<bar> < 2 ^ 52"
  shows "to_double x = x"
proof (cases "x = 0")
  case True
  then show ?thesis by (simp add: to_double_def)
next
  case False
  from assms(1) obtain k where k: "2 * x = of_int k" by (auto elim: Ints_cases)
  define a where "a = \<bar>x\<bar>"
  define e where "e = binade 1100 a"
  have a2: "2 * a = of_int \<bar>k\<bar>" using k by (simp add: a_def abs_mult[symmetric] del: abs_mult)
  have "k \<noteq> 0" using k False by auto
  then have "1 \<le> \<bar>k\<bar>" by simp
  then have "(1::real) \<le> of_int \<bar>k\<bar>" by linarith
  with a2 have lo: "1 / 2 \<le> a" by simp
  have hi: "a < 2 ^ 52" using assms(2) by (simp add: a_def)
  have "(2::real) powi (- int 1100) \<le> 2 powi (- 1)" by (intro power_int_increasing) auto
  with lo have r1: "2 powi (- int 1100) \<le> a" by (simp add: power_int_minus)
  have "(2::real) powi 52 \<le> 2 powi (int 1100 + 1)" by (intro power_int_increasing) auto
  with hi have r2: "a < 2 powi (int 1100 + 1)" by simp
  from binade_spec[OF r1 r2] have b: "2 powi e \<le> a" "a < 2 powi (e + 1)" by (simp_all add: e_def)
  have "(2::real) powi e < 2 powi 52" using b(1) hi by simp
  have "e < 52"
  proof (rule ccontr)
    assume "\<not> e < 52"
    then have "(2::real) powi 52 \<le> 2 powi e" by (intro power_int_increasing) auto
    with \<open>(2::real) powi e < 2 powi 52\<close> show False by simp
  qed
  define j where "j = nat (51 - e)"
  have je: "int j = 51 - e" using \<open>e < 52\<close> by (simp add: j_def)
  have "a / 2 powi (e - 52) = a * 2 powi (52 - e)"
    by (simp add: power_int_diff field_simps)
  also have "52 - e = int j + 1" using je by simp
  also have "a * 2 powi (int j + 1) = (2 * a) * 2 ^ j" by (simp add: power_int_add)
  also have "\<dots> = of_int (\<bar>k\<bar> * 2 ^ j)" using a2 by simp
  finally have q: "a / 2 powi (e - 52) = of_int (\<bar>k\<bar> * 2 ^ j)" .
  have "to_double x = sgn x * of_int (round_half_even (a / 2 powi (e - 52))) * 2 powi (e - 52)"
    using False by (simp add: to_double_def Let_def a_def e_def)
  also have "\<dots> = sgn x * (a / 2 powi (e - 52)) * 2 powi (e - 52)"
    by (simp only: q round_half_even_int)
  also have "\<dots> = sgn x * a" by simp
  also have "\<dots> = x" by (simp add: a_def sgn_mult_abs)
  finally show ?thesis .
qed

subsection \<open>Jitter with zero standard deviation\<close>

text \<open>
  C9: with a jitter standard deviation of zero \<open>add_gauss_jitter\<close> returns the train it
  was given, whatever the train: nothing is drawn, sorted or spaced.
\<close>

theorem add_gauss_jitter_zero_identity:
  "add_gauss_jitter spiketrain 0 dt normal k = Some (Inr (spiketrain, k))"
  by (simp add: add_gauss_jitter_def)

subsection \<open>The bounded Poisson generator\<close>

lemma first_interval_returns:
  assumes "exponential (1 / rate) (k + d) < dura" "dt < dura"
  shows "\<exists>x k'. first_interval dura rate dt exponential k = Some ([x], k') \<and> dt \<le> x \<and> x < dura"
  using assms
proof (induction d arbitrary: k)
  case 0
  then show ?case by (subst first_interval.simps) (auto simp: Let_def)
next
  case (Suc d)
  from Suc.prems have "exponential (1 / rate) (Suc k + d) < dura" by simp
  from Suc.IH[OF this Suc.prems(2)] obtain x k' where
    h: "first_interval dura rate dt exponential (Suc k) = Some ([x], k')" "dt \<le> x" "x < dura" by blast
  show ?case
    by (subst first_interval.simps) (use h Suc.prems in \<open>auto simp: Let_def\<close>)
qed

lemma spaced_snoc:
  "st \<noteq> [] \<Longrightarrow> spaced dt st \<Longrightarrow> last st + dt \<le> y \<Longrightarrow> spaced dt (st @ [y])"
proof -
  assume ne: "st \<noteq> []" and sp: "spaced dt st" and y: "last st + dt \<le> y"
  show "spaced dt (st @ [y])"
    unfolding spaced_def
  proof (intro allI impI)
    fix i assume i: "Suc i < length (st @ [y])"
    show "(st @ [y]) ! i + dt \<le> (st @ [y]) ! Suc i"
    proof (cases "Suc i < length st")
      case True
      then show ?thesis using sp by (simp add: spaced_def nth_append)
    next
      case False
      with i have e: "Suc i = length st" by simp
      then have "last st = st ! i" using ne by (simp add: last_conv_nth flip: e)
      then show ?thesis using y e by (simp add: nth_append)
    qed
  qed
qed

lemma more_spikes_returns:
  assumes "0 < dt" "st \<noteq> []" "spaced dt st" "\<forall>t \<in> set (butlast st). t < dura"
  shows "\<exists>st' k'. more_spikes dura rate dt exponential st k = Some (Inr (st', k'))
           \<and> st' \<noteq> [] \<and> spaced dt st' \<and> (\<forall>t \<in> set (butlast st'). t < dura)
           \<and> hd st' = hd st \<and> length st \<le> length st' \<and> (last st < dura \<longrightarrow> length st < length st')"
  using assms
proof (induction "nat \<lceil>(dura - last st) / dt\<rceil>" arbitrary: st k rule: less_induct)
  case less
  show ?case
  proof (cases "last st < dura")
    case False
    then show ?thesis
      by (subst more_spikes.simps) (use less.prems in auto)
  next
    case True
    define drawn where "drawn = exponential (1 / rate) k"
    define ni where "ni = (if drawn < dt then dt else drawn)"
    define st2 where "st2 = st @ [last st + ni]"
    have ni: "dt \<le> ni" by (simp add: ni_def)
    have l2: "last st2 = last st + ni" by (simp add: st2_def)
    have "(dura - last st2) / dt \<le> (dura - last st) / dt - 1"
      using ni less.prems(1) by (simp add: l2 field_simps)
    then have "\<lceil>(dura - last st2) / dt\<rceil> \<le> \<lceil>(dura - last st) / dt\<rceil> - 1"
      by (metis ceiling_mono ceiling_diff_one)
    moreover have "0 < \<lceil>(dura - last st) / dt\<rceil>"
      using True less.prems(1) by (simp add: ceiling_less_iff)
    ultimately have m: "nat \<lceil>(dura - last st2) / dt\<rceil> < nat \<lceil>(dura - last st) / dt\<rceil>"
      by linarith
    have p2: "st2 \<noteq> []" by (simp add: st2_def)
    have p3: "spaced dt st2"
      unfolding st2_def using less.prems ni by (intro spaced_snoc) auto
    have p4: "\<forall>t \<in> set (butlast st2). t < dura"
    proof -
      have "set st = insert (last st) (set (butlast st))"
        using less.prems(2) by (metis append_butlast_last_id list.simps(15) rotate1.simps(2) set_rotate1)
      then show ?thesis using less.prems(4) True by (auto simp: st2_def)
    qed
    from less.hyps[OF m less.prems(1) p2 p3 p4, of "Suc k"] obtain st' k' where
      h: "more_spikes dura rate dt exponential st2 (Suc k) = Some (Inr (st', k'))"
         "st' \<noteq> []" "spaced dt st'" "\<forall>t \<in> set (butlast st'). t < dura" "hd st' = hd st2"
         "length st2 \<le> length st'"
      by blast
    have "more_spikes dura rate dt exponential st k = more_spikes dura rate dt exponential st2 (Suc k)"
      by (subst more_spikes.simps) (use True less.prems(2) in \<open>simp add: Let_def st2_def ni_def drawn_def\<close>)
    with h show ?thesis using less.prems(2) by (auto simp: st2_def)
  qed
qed

lemma spaced_butlast: "spaced dt st \<Longrightarrow> spaced dt (butlast st)"
  unfolding spaced_def by (auto simp: nth_butlast)

lemma spaced_increasing:
  assumes "0 < dt" "spaced dt st"
  shows "sorted_wrt (<) st"
proof -
  have "\<forall>i. Suc i < length st \<longrightarrow> st ! i < st ! Suc i"
  proof (intro allI impI)
    fix i assume "Suc i < length st"
    with assms(2) have "st ! i + dt \<le> st ! Suc i" by (simp add: spaced_def)
    with assms(1) show "st ! i < st ! Suc i" by simp
  qed
  then show ?thesis by (simp add: sorted_wrt_iff_nth_Suc_transp)
qed

text \<open>
  C6: for a positive rate, a positive grid step and a duration above the grid step,
  \<open>poisson_spikes\<close> returns a train that is not empty, strictly increasing, with every gap
  at least \<open>dt\<close>, whose first spike is at least \<open>dt\<close> and whose every spike lies strictly
  below the duration. The first loop ends when the random source delivers a draw below
  the duration, which is the hypothesis on the source.
\<close>

theorem poisson_spikes_train:
  assumes "0 < rate" "0 < dt" "dt < dura" "exponential (1 / rate) (k + d) < dura"
  shows "\<exists>st k'. poisson_spikes dura rate dt exponential k = Some (Inr (st, k'))
           \<and> st \<noteq> [] \<and> sorted_wrt (<) st \<and> spaced dt st \<and> dt \<le> hd st
           \<and> (\<forall>t \<in> set st. t < dura)"
proof -
  from first_interval_returns[where exponential=exponential and rate=rate and k=k and d=d, OF assms(4) assms(3)] obtain x k1 where
    f: "first_interval dura rate dt exponential k = Some ([x], k1)" "dt \<le> x" "x < dura" by blast
  have "spaced dt [x]" by (simp add: spaced_def)
  from more_spikes_returns[OF assms(2) _ this, of dura rate exponential k1] f(3) obtain st' k2 where
    m: "more_spikes dura rate dt exponential [x] k1 = Some (Inr (st', k2))" "st' \<noteq> []"
       "spaced dt st'" "\<forall>t \<in> set (butlast st'). t < dura" "hd st' = x" "1 < length st'"
    by auto
  have r: "poisson_spikes dura rate dt exponential k = Some (Inr (butlast st', k2))"
    using assms(1) f(1) m(1) by (simp add: poisson_spikes_def)
  have ne: "butlast st' \<noteq> []" using m(6) by (cases st' rule: rev_cases) auto
  have sp: "spaced dt (butlast st')" using m(3) by (rule spaced_butlast)
  have "hd (butlast st') = x" using m(5) ne by (cases st') auto
  with r ne sp m(4) f(2) spaced_increasing[OF assms(2) sp] show ?thesis by simp
qed

text \<open>
  The theorem at 20 Hz, one second and a grid step of 0.1 ms, with a source whose every
  draw is 0.4 s: the train is \<open>[0.4, 0.8]\<close>, after three draws.
\<close>

theorem poisson_spikes_train_witness:
  "(0::real) < 20 \<and> (0::real) < 1 / 10000 \<and> (1 / 10000 :: real) < 1
   \<and> steady_draws (1 / 20 :: real) (0 + 0 :: nat) < (1::real)
   \<and> poisson_spikes 1 20 (1 / 10000) steady_draws 0 = Some (Inr ([2 / 5, 4 / 5], 3))
   \<and> (\<exists>st k'. poisson_spikes 1 20 (1 / 10000) steady_draws 0 = Some (Inr (st, k'))
           \<and> st \<noteq> [] \<and> sorted_wrt (<) st \<and> spaced (1 / 10000) st \<and> 1 / 10000 \<le> hd st
           \<and> (\<forall>t \<in> set st. t < 1))"
proof -
  have v: "poisson_spikes 1 20 (1 / 10000) steady_draws 0 = Some (Inr ([2 / 5, 4 / 5], 3))"
    by (simp add: poisson_spikes_def first_interval.simps more_spikes.simps steady_draws_def Let_def)
  have h: "steady_draws (1 / 20 :: real) (0 + 0 :: nat) < (1::real)" by (simp add: steady_draws_def)
  show ?thesis
    using v h poisson_spikes_train[of 20 "1 / 10000" 1 steady_draws 0 0] by simp
qed

subsection \<open>Synchrony outside the unit interval\<close>

lemma sync_inp_full_synchrony:
  "sync_inp 2 20 1 0 1 (1 / 10) six_draws no_shifts 0 0 = ([], Some (Inr [[3 / 5], [3 / 5]]))"
  by (simp add: sync_inp_def poisson_spikes_def first_interval.simps more_spikes.simps
        add_gauss_jitter_def six_draws_def Let_def numeral_2_eq_2)

lemma sync_inp_no_synchrony:
  "sync_inp 2 20 0 0 1 (1 / 10) six_draws no_shifts 0 0 = ([], Some (Inr [[3 / 10], [1 / 2]]))"
  by (simp add: sync_inp_def poisson_spikes_def first_interval.simps more_spikes.simps
        add_gauss_jitter_def six_draws_def Let_def numeral_2_eq_2)

lemma configure_generators_no_synchrony:
  "configure_generators 3 20 0 (1 / 1000) (1 / 10000)
     = ([], [(1, sync_inp_gen 1 20 0 (1 / 10000)), (2, sync_inp_gen 1 20 0 (1 / 10000)),
             (3, sync_inp_gen 1 20 0 (1 / 10000))])"
  by (simp add: configure_generators_def Let_def numeral_3_eq_3 upt_rec)

lemma configure_generators_full_synchrony:
  "configure_generators 3 20 1 (1 / 1000) (1 / 10000)
     = ([], [(0, sync_inp_gen 3 20 (1 / 1000) (1 / 10000)), (0, sync_inp_gen 3 20 (1 / 1000) (1 / 10000)),
             (0, sync_inp_gen 3 20 (1 / 1000) (1 / 10000))])"
  by (simp add: configure_generators_def Let_def numeral_3_eq_3)

text \<open>
  C1, as the code has it: when the synchrony fraction lies outside the unit interval,
  \<open>sync_inp\<close> goes on as it does for the fraction 1 and
  \<open>configure_generators\<close> as it does for the fraction 0, each after exactly one warning.
  The correction raises nothing: the outcome is the outcome of the call with the boundary
  value.
\<close>

theorem synchrony_correction:
  assumes "\<not> (0 \<le> s \<and> s \<le> 1)"
  shows "sync_inp n rate s sigma dura dt exponential normal ke kn
           = ([''Synchrony should be between 0 and 1. Setting to 1.''],
              snd (sync_inp n rate 1 sigma dura dt exponential normal ke kn))
       \<and> configure_generators m rate' s jitter dt'
           = ([''Synchrony should be between 0 and 1. Setting to 0''],
              snd (configure_generators m rate' 0 jitter dt'))"
  using assms by (simp add: sync_inp_def configure_generators_def Let_def)

text \<open>
  The theorem at the fraction 2: two trains that are both the template, and three
  generators that are all independent.
\<close>

theorem synchrony_correction_witness:
  "\<not> (0 \<le> (2::real) \<and> (2::real) \<le> 1)
   \<and> sync_inp 2 20 2 0 1 (1 / 10) six_draws no_shifts 0 0
       = ([''Synchrony should be between 0 and 1. Setting to 1.''], Some (Inr [[3 / 5], [3 / 5]]))
   \<and> configure_generators 3 20 2 (1 / 1000) (1 / 10000)
       = ([''Synchrony should be between 0 and 1. Setting to 0''],
          [(1, sync_inp_gen 1 20 0 (1 / 10000)), (2, sync_inp_gen 1 20 0 (1 / 10000)),
           (3, sync_inp_gen 1 20 0 (1 / 10000))])"
proof -
  have h: "\<not> (0 \<le> (2::real) \<and> (2::real) \<le> 1)" by simp
  note c = synchrony_correction [OF h, where n = 2 and rate = 20 and sigma = 0 and dura = 1
      and dt = "1 / 10" and exponential = six_draws and normal = no_shifts and ke = 0 and kn = 0
      and m = 3 and rate' = 20 and jitter = "1 / 1000" and dt' = "1 / 10000"]
  show ?thesis
    using h c by (simp only: sync_inp_full_synchrony configure_generators_no_synchrony snd_conv) simp
qed

text \<open>
  The claim has the two boundary values the other way round. At the fraction 2
  \<open>sync_inp\<close> returns what it returns for the fraction 1 and not what it returns for 0,
  and \<open>configure_generators\<close> returns what it returns for 0 and not what it returns for 1.
\<close>

theorem synchrony_claim_counterexample:
  "snd (sync_inp 2 20 2 0 1 (1 / 10) six_draws no_shifts 0 0) = Some (Inr [[3 / 5], [3 / 5]])
   \<and> snd (sync_inp 2 20 0 0 1 (1 / 10) six_draws no_shifts 0 0) = Some (Inr [[3 / 10], [1 / 2]])
   \<and> snd (sync_inp 2 20 2 0 1 (1 / 10) six_draws no_shifts 0 0)
       \<noteq> snd (sync_inp 2 20 0 0 1 (1 / 10) six_draws no_shifts 0 0)
   \<and> snd (configure_generators 3 20 2 (1 / 1000) (1 / 10000))
       = [(1, sync_inp_gen 1 20 0 (1 / 10000)), (2, sync_inp_gen 1 20 0 (1 / 10000)),
          (3, sync_inp_gen 1 20 0 (1 / 10000))]
   \<and> snd (configure_generators 3 20 2 (1 / 1000) (1 / 10000))
       \<noteq> snd (configure_generators 3 20 1 (1 / 1000) (1 / 10000))"
proof -
  have a: "sync_inp 2 20 2 0 1 (1 / 10) six_draws no_shifts 0 0
     = ([''Synchrony should be between 0 and 1. Setting to 1.''], Some (Inr [[3 / 5], [3 / 5]]))"
    by (simp add: sync_inp_def poisson_spikes_def first_interval.simps more_spikes.simps
        add_gauss_jitter_def six_draws_def Let_def numeral_2_eq_2)
  have b: "configure_generators 3 20 2 (1 / 1000) (1 / 10000)
     = ([''Synchrony should be between 0 and 1. Setting to 0''],
        [(1, sync_inp_gen 1 20 0 (1 / 10000)), (2, sync_inp_gen 1 20 0 (1 / 10000)),
         (3, sync_inp_gen 1 20 0 (1 / 10000))])"
    by (simp add: configure_generators_def Let_def numeral_3_eq_3 upt_rec)
  show ?thesis
    by (simp add: a b sync_inp_no_synchrony configure_generators_full_synchrony)
qed

subsection \<open>Jitter with a positive standard deviation\<close>

text \<open>
  C2 at the train \<open>[1, 1.5, 2.5]\<close> with a standard deviation of 10 ms and shifts of
  10, -10 and 20 ms: the jittered train is \<open>[1.01, 1.49, 2.52]\<close>, its intervals are
  \<open>[0.48, 1.03]\<close>, and the function returns their running sums. The result has two
  spikes for the three it was given, and they are counted from the first jittered spike
  and not from zero.
\<close>

theorem add_gauss_jitter_loses_a_spike:
  "add_gauss_jitter [1, 3 / 2, 5 / 2] (1 / 100) (1 / 10000) three_shifts 0
     = Some (Inr ([12 / 25, 151 / 100], 3))"
  by (simp add: add_gauss_jitter_def three_shifts_def widen_intervals.simps np_cumsum_def
        Let_def upt_rec numeral_3_eq_3)

text \<open>A train of one spike has no interval, and the minimum of no interval raises.\<close>

lemma add_gauss_jitter_single_spike:
  "add_gauss_jitter [1] (1 / 100) (1 / 10000) three_shifts 0 = Some (Inl ValueError)"
  by (simp add: add_gauss_jitter_def three_shifts_def widen_intervals.simps Let_def upt_rec)

lemma steps_needed_step:
  assumes "0 < dt" and "x < dt"
  shows "steps_needed dt (x + dt) < steps_needed dt x"
proof -
  have "(dt - (x + dt)) / dt = (dt - x) / dt - 1"
    using assms(1) by (simp add: field_simps)
  then have c: "\<lceil>(dt - (x + dt)) / dt\<rceil> = \<lceil>(dt - x) / dt\<rceil> - 1" by simp
  have "0 < (dt - x) / dt" using assms by simp
  then have "0 < \<lceil>(dt - x) / dt\<rceil>" by (simp add: ceiling_less_iff)
  with c show ?thesis by (simp add: steps_needed_def)
qed

lemma widen_intervals_returns:
  assumes "0 < dt" and "intervals \<noteq> []"
  shows "\<exists>widened. widen_intervals dt intervals = Some (Inr widened)
           \<and> length widened = length intervals \<and> (\<forall>x \<in> set widened. dt \<le> x)"
  using assms(2)
proof (induction "sum_list (map (steps_needed dt) intervals)" arbitrary: intervals rule: less_induct)
  case less
  show ?case
  proof (cases "list_min intervals < dt")
    case False
    then have "\<forall>x \<in> set intervals. dt \<le> x" using list_min_le by fastforce
    with False less.prems show ?thesis by (subst widen_intervals.simps) simp
  next
    case True
    define m where "m = list_min intervals"
    define index where "index = first_index intervals m"
    define next_intervals where "next_intervals = intervals[index := intervals ! index + dt]"
    have "m \<in> set intervals" unfolding m_def using less.prems by (rule list_min_in)
    then have ix: "index < length intervals" "intervals ! index = m"
      unfolding index_def using first_index_finds by auto
    have ne: "next_intervals \<noteq> []" using less.prems by (simp add: next_intervals_def)
    have "map (steps_needed dt) next_intervals
            = (map (steps_needed dt) intervals)[index := steps_needed dt (m + dt)]"
      by (simp add: next_intervals_def map_update ix(2))
    then have "sum_list (map (steps_needed dt) next_intervals)
            = sum_list (map (steps_needed dt) intervals) + steps_needed dt (m + dt) - steps_needed dt m"
      using ix by (simp add: sum_list_update)
    moreover have "steps_needed dt (m + dt) < steps_needed dt m"
      using assms(1) True by (intro steps_needed_step) (simp_all add: m_def)
    moreover have "steps_needed dt m \<le> sum_list (map (steps_needed dt) intervals)"
    proof -
      have "m \<in> set intervals" using ix nth_mem by blast
      then have "steps_needed dt m \<in> set (map (steps_needed dt) intervals)" by simp
      then show ?thesis by (simp add: member_le_sum_list)
    qed
    ultimately have "sum_list (map (steps_needed dt) next_intervals)
            < sum_list (map (steps_needed dt) intervals)" by linarith
    from less.hyps[OF this ne] obtain widened where
      w: "widen_intervals dt next_intervals = Some (Inr widened)"
         "length widened = length next_intervals" "\<forall>x \<in> set widened. dt \<le> x"
      by blast
    have "widen_intervals dt intervals = widen_intervals dt next_intervals"
      using True less.prems
      by (subst widen_intervals.simps) (simp add: Let_def next_intervals_def index_def m_def)
    with w show ?thesis by (simp add: next_intervals_def)
  qed
qed

lemma cumsum_from_spaced:
  "\<forall>x \<in> set xs. dt \<le> x \<Longrightarrow> spaced dt (acc # cumsum_from acc xs)"
proof (induction xs arbitrary: acc)
  case Nil
  then show ?case by (simp add: spaced_def)
next
  case (Cons x xs)
  then have "spaced dt ((acc + x) # cumsum_from (acc + x) xs)" by simp
  moreover have "acc + dt \<le> acc + x" using Cons.prems by simp
  ultimately show ?case
    unfolding spaced_def
    by (auto simp: nth_Cons split: nat.splits)
qed

text \<open>
  In general: with a positive standard deviation and a positive grid step, a train of
  \<open>n \<ge> 2\<close> spikes comes back as a train of \<open>n - 1\<close> spikes, whatever the draws. The loop
  ends, and the spikes returned are at least \<open>dt\<close> apart, the first at least \<open>dt\<close> from
  zero.
\<close>

lemma add_gauss_jitter_returns_one_less:
  assumes "0 < jitter" and "0 < dt" and "2 \<le> length spiketrain"
  shows "\<exists>jspiketrain. add_gauss_jitter spiketrain jitter dt normal k
             = Some (Inr (jspiketrain, k + length spiketrain))
           \<and> length jspiketrain = length spiketrain - 1
           \<and> spaced dt jspiketrain \<and> dt \<le> hd jspiketrain"
proof -
  define intervals where
    "intervals = np_diff (sort (map (\<lambda>i. spiketrain ! i + normal jitter (k + i)) [0..<length spiketrain]))"
  have li: "length intervals = length spiketrain - 1"
    by (simp add: intervals_def np_diff_length)
  then have "intervals \<noteq> []" using assms(3) by auto
  from widen_intervals_returns[OF assms(2) this] obtain widened where
    w: "widen_intervals dt intervals = Some (Inr widened)" "length widened = length intervals"
       "\<forall>x \<in> set widened. dt \<le> x"
    by blast
  have r: "add_gauss_jitter spiketrain jitter dt normal k
             = Some (Inr (np_cumsum widened, k + length spiketrain))"
    using assms(1) w(1) by (simp add: add_gauss_jitter_def Let_def intervals_def)
  have sp0: "spaced dt (0 # np_cumsum widened)"
    unfolding np_cumsum_def using w(3) by (rule cumsum_from_spaced)
  have ne: "np_cumsum widened \<noteq> []"
    using w(2) li assms(3) by (cases widened) (auto simp: np_cumsum_def)
  have sp: "spaced dt (np_cumsum widened)"
    using sp0 unfolding spaced_def by (metis Suc_less_eq length_Cons nth_Cons_Suc)
  have hd: "dt \<le> hd (np_cumsum widened)"
    using sp0 ne unfolding spaced_def
    by (cases "np_cumsum widened") (auto dest: spec[of _ 0])
  show ?thesis
    using r sp hd w(2) li by (simp add: np_cumsum_def cumsum_from_length)
qed

subsection \<open>The local coefficient of variation\<close>

lemma CV2_loop_sum:
  assumes "\<forall>i. Suc i < length isi \<longrightarrow> isi ! i + isi ! Suc i \<noteq> 0"
  shows "CV2_loop (Some acc) isi
           = Some (acc + (\<Sum>i = 0..<length isi - 1. \<bar>isi ! i - isi ! Suc i\<bar> / (isi ! i + isi ! Suc i)))"
  using assms
proof (induction "Some acc" isi arbitrary: acc rule: CV2_loop.induct)
  case (1 a b isi)
  from "1.prems" have ab: "a + b \<noteq> 0" by force
  from "1.prems" have rest: "\<forall>i. Suc i < length (b # isi) \<longrightarrow> (b # isi) ! i + (b # isi) ! Suc i \<noteq> 0"
    by force
  have step: "lift2 (+) (Some acc) (np_divide \<bar>a - b\<bar> (a + b)) = Some (acc + \<bar>a - b\<bar> / (a + b))"
    using ab by (simp add: lift2_def np_divide_def)
  have "CV2_loop (Some acc) (a # b # isi) = CV2_loop (Some (acc + \<bar>a - b\<bar> / (a + b))) (b # isi)"
    by (simp add: step)
  also have "\<dots> = Some (acc + \<bar>a - b\<bar> / (a + b)
      + (\<Sum>i = 0..<length (b # isi) - 1. \<bar>(b # isi) ! i - (b # isi) ! Suc i\<bar> / ((b # isi) ! i + (b # isi) ! Suc i)))"
    using "1.hyps"[OF step rest] .
  also have "\<dots> = Some (acc + (\<Sum>i = 0..<length (a # b # isi) - 1.
       \<bar>(a # b # isi) ! i - (a # b # isi) ! Suc i\<bar> / ((a # b # isi) ! i + (a # b # isi) ! Suc i)))"
    by (simp add: sum.atLeast0_lessThan_Suc_shift del: sum.op_ivl_Suc)
  finally show ?case .
qed simp_all

text \<open>
  C5, as the code has it: for a train with at least one interval, none of whose
  neighbouring intervals add up to zero, \<open>CV2\<close> is the sum over the \<open>N - 1\<close> pairs of
  neighbouring intervals of \<open>2 |a - b| / (a + b)\<close>, divided by \<open>N\<close>, the number of
  intervals (one more than the number of pairs).
\<close>

theorem CV2_sum_over_isi_count:
  assumes "1 \<le> length (np_diff spiketrain)"
    and "\<forall>i. Suc i < length (np_diff spiketrain)
           \<longrightarrow> np_diff spiketrain ! i + np_diff spiketrain ! Suc i \<noteq> 0"
  shows "CV2 spiketrain
           = Some ((\<Sum>i = 0..<length (np_diff spiketrain) - 1.
                      2 * \<bar>np_diff spiketrain ! i - np_diff spiketrain ! Suc i\<bar>
                        / (np_diff spiketrain ! i + np_diff spiketrain ! Suc i))
                   / real (length (np_diff spiketrain)))"
  using assms(1) CV2_loop_sum[OF assms(2), of 0]
  by (simp add: CV2_def Let_def sum_distrib_left sum_divide_distrib mult.commute)

text \<open>The theorem at the train \<open>[0, 1, 3, 4]\<close>, whose intervals are 1, 2 and 1.\<close>

theorem CV2_sum_over_isi_count_witness:
  "np_diff [0, 1, 3, 4] = [1, 2, 1] \<and> CV2 [0, 1, 3, 4] = Some (4 / 9)"
proof -
  have d: "np_diff [0, 1, 3, 4] = [1, 2, 1]" by simp
  have h1: "1 \<le> length (np_diff [0, 1, 3, 4])" by simp
  have h2: "\<forall>i. Suc i < length (np_diff [0, 1, 3, 4])
           \<longrightarrow> np_diff [0, 1, 3, 4] ! i + np_diff [0, 1, 3, 4] ! Suc i \<noteq> 0"
    by (simp add: less_Suc_eq numeral_3_eq_3 all_conj_distrib)
  from CV2_sum_over_isi_count [OF h1 h2] have "CV2 [0, 1, 3, 4] = Some (4 / 9)"
    by (simp add: numeral_2_eq_2)
  with d show ?thesis by simp
qed

text \<open>
  At that train the two pairs give one third each: the code returns four ninths, and the
  mean over the pairs is two thirds.
\<close>

theorem CV2_pair_mean_counterexample:
  "CV2 [0, 1, 3, 4] = Some (4 / 9)
   \<and> CV2_pair_mean (np_diff [0, 1, 3, 4]) = 2 / 3
   \<and> CV2 [0, 1, 3, 4] \<noteq> Some (CV2_pair_mean (np_diff [0, 1, 3, 4]))"
proof -
  have a: "CV2 [0, 1, 3, 4] = Some (4 / 9)"
    by (simp add: CV2_def lift2_def np_divide_def)
  have b: "CV2_pair_mean (np_diff [0, 1, 3, 4]) = 2 / 3"
    by (simp add: CV2_pair_mean_def numeral_2_eq_2)
  show ?thesis by (simp only: a b) simp
qed

subsection \<open>Slopes at the spikes\<close>

lemma np_take_length: "np_take xs idx = Inr vs \<Longrightarrow> length vs = length idx"
  by (induction idx arbitrary: vs) (auto split: sum.splits)

lemma np_take_nth: "np_take xs idx = Inr vs \<Longrightarrow> i < length idx \<Longrightarrow> np_get xs (idx ! i) = Inr (vs ! i)"
proof (induction idx arbitrary: vs i)
  case Nil then show ?case by simp
next
  case (Cons j idx)
  then show ?case by (cases i) (auto split: sum.splits)
qed

lemma np_astype_int_map: "np_astype_int qs = Inr idx \<Longrightarrow> idx = map py_int qs"
  by (induction qs arbitrary: idx) (auto simp: astype_int_def split: sum.splits if_splits)

lemma fl_diff_length: "length (fl_diff fl xs) = length xs - 1"
  by (induction fl xs rule: fl_diff.induct) auto

lemma fl_diff_nth: "Suc i < length xs \<Longrightarrow> fl_diff fl xs ! i = fl_sub fl (xs ! Suc i) (xs ! i)"
proof (induction fl xs arbitrary: i rule: fl_diff.induct)
  case (1 fl x y xs)
  then show ?case by (cases i) auto
qed auto

lemma firing_windows_length: "length (firing_windows fl w dt st) = length st"
  by (cases st) (auto simp: firing_windows_def fl_diff_length simp del: fl_diff.simps)

lemma firing_windows_nth:
  assumes "i < length st"
  shows "firing_windows fl w dt st ! i
           = min w (fl_sub fl (if i = 0 then st ! 0 else fl_sub fl (st ! i) (st ! (i - 1))) dt)"
proof (cases i)
  case 0
  with assms show ?thesis by (cases st) (auto simp: firing_windows_def)
next
  case (Suc j)
  with assms have "fl_diff fl st ! j = fl_sub fl (st ! Suc j) (st ! j)" by (simp add: fl_diff_nth)
  with Suc assms show ?thesis
    by (cases st) (simp_all add: firing_windows_def fl_diff_length del: fl_diff.simps)
qed

lemma firing_slope_returned:
  assumes "2 \<le> length spiketrain"
    and "firing_slope fl mem spiketrain dt w = Inr (m, slopes)"
  shows "\<exists>at_spike at_start.
           np_take mem (map (\<lambda>t. py_int (fl_div fl t dt)) spiketrain) = Inr at_spike
         \<and> np_take mem (map2 (-) (map (\<lambda>t. py_int (fl_div fl t dt)) spiketrain)
               (map (\<lambda>x. py_int (fl_div fl x dt)) (firing_windows fl (max w dt) dt spiketrain))) = Inr at_start
         \<and> slopes = map2 np_divide (map2 (-) at_spike at_start) (firing_windows fl (max w dt) dt spiketrain)
         \<and> m = np_mean slopes
         \<and> length at_spike = length spiketrain \<and> length at_start = length spiketrain"
proof -
  define windows where "windows = firing_windows fl (max w dt) dt spiketrain"
  define st_dt where "st_dt = map (\<lambda>t. py_int (fl_div fl t dt)) spiketrain"
  define w_dt where "w_dt = map (\<lambda>x. py_int (fl_div fl x dt)) windows"
  have lw: "length windows = length spiketrain"
    using assms(1) by (auto simp: windows_def firing_windows_length)
  from assms obtain st_dt' w_dt' at_spike at_start where
    c1: "np_astype_int (map (\<lambda>t. fl_div fl t dt) spiketrain) = Inr st_dt'" and
    c2: "np_astype_int (map (\<lambda>x. fl_div fl x dt) windows) = Inr w_dt'" and
    t1': "np_take mem st_dt' = Inr at_spike" and
    t2': "np_take mem (map2 (-) st_dt' w_dt') = Inr at_start" and
    sl: "slopes = map2 np_divide (map2 (-) at_spike at_start) windows" and
    me: "m = np_mean slopes"
    by (auto simp: firing_slope_def Let_def windows_def split: if_splits sum.splits)
  have "st_dt' = st_dt" "w_dt' = w_dt"
    using np_astype_int_map[OF c1] np_astype_int_map[OF c2]
    by (simp_all add: st_dt_def w_dt_def o_def)
  with t1' t2' have t1: "np_take mem st_dt = Inr at_spike"
    and t2: "np_take mem (map2 (-) st_dt w_dt) = Inr at_start" by simp_all
  have l1: "length at_spike = length spiketrain"
    using np_take_length[OF t1] by (simp add: st_dt_def)
  have l2: "length at_start = length spiketrain"
    using np_take_length[OF t2] by (simp add: st_dt_def w_dt_def lw)
  show ?thesis
    using t1 t2 sl me l1 l2 unfolding windows_def st_dt_def w_dt_def by blast
qed

lemma firing_slope_length:
  assumes "2 \<le> length spiketrain"
    and "firing_slope fl mem spiketrain dt w = Inr (m, slopes)"
  shows "length slopes = length spiketrain"
  using firing_slope_returned[OF assms] assms(1)
  by (auto simp: firing_windows_length)

text \<open>
  C3, as the code has it: when \<open>firing_slope\<close> returns for a train of at least two
  spikes, the window of spike \<open>i\<close> is \<open>min(max(w, dt), isi - dt)\<close>, where \<open>isi\<close> is the
  time since the spike before (since 0 for the first spike); only \<open>w\<close> is raised to
  \<open>dt\<close>, so that the window is at least \<open>dt\<close> exactly when \<open>isi - dt\<close> is, and below
  \<open>dt\<close> otherwise; and the slope of spike \<open>i\<close> is
  \<open>mem[int(t/dt)] - mem[int(t/dt) - int(window/dt)]\<close> divided by the window (not a
  finite number when the window is zero). The differences are the float differences
  of the code and the indices its float quotients, truncated: whatever the rounding
  makes of them.
\<close>

theorem firing_slope_windows:
  assumes "2 \<le> length spiketrain"
    and "firing_slope fl mem spiketrain dt w = Inr (m, slopes)"
    and "i < length spiketrain"
  shows "let isi = (if i = 0 then spiketrain ! 0 else fl_sub fl (spiketrain ! i) (spiketrain ! (i - 1)));
             window = min (max w dt) (fl_sub fl isi dt)
         in firing_windows fl (max w dt) dt spiketrain ! i = window
            \<and> (dt \<le> window \<longleftrightarrow> dt \<le> fl_sub fl isi dt)
            \<and> length slopes = length spiketrain
            \<and> (\<exists>a b. np_get mem (py_int (fl_div fl (spiketrain ! i) dt)) = Inr a
                  \<and> np_get mem (py_int (fl_div fl (spiketrain ! i) dt) - py_int (fl_div fl window dt)) = Inr b
                  \<and> slopes ! i = np_divide (a - b) window)"
proof -
  define windows where "windows = firing_windows fl (max w dt) dt spiketrain"
  have lw: "length windows = length spiketrain"
    using assms(1) by (auto simp: windows_def firing_windows_length)
  from firing_slope_returned[OF assms(1,2)] obtain at_spike at_start where
    t1: "np_take mem (map (\<lambda>t. py_int (fl_div fl t dt)) spiketrain) = Inr at_spike" and
    t2: "np_take mem (map2 (-) (map (\<lambda>t. py_int (fl_div fl t dt)) spiketrain)
               (map (\<lambda>x. py_int (fl_div fl x dt)) windows)) = Inr at_start" and
    sl: "slopes = map2 np_divide (map2 (-) at_spike at_start) windows" and
    l1: "length at_spike = length spiketrain" and l2: "length at_start = length spiketrain"
    unfolding windows_def by blast
  define isi where "isi = (if i = 0 then spiketrain ! 0 else fl_sub fl (spiketrain ! i) (spiketrain ! (i - 1)))"
  have wi: "windows ! i = min (max w dt) (fl_sub fl isi dt)"
    unfolding windows_def isi_def using assms(3) by (rule firing_windows_nth)
  have bd: "dt \<le> min (max w dt) (fl_sub fl isi dt) \<longleftrightarrow> dt \<le> fl_sub fl isi dt"
    by auto
  have g1: "np_get mem (py_int (fl_div fl (spiketrain ! i) dt)) = Inr (at_spike ! i)"
    using np_take_nth[OF t1, of i] assms(3) by simp
  have g2: "np_get mem (py_int (fl_div fl (spiketrain ! i) dt) - py_int (fl_div fl (windows ! i) dt)) = Inr (at_start ! i)"
    using np_take_nth[OF t2, of i] assms(3) lw by simp
  have s: "slopes ! i = np_divide (at_spike ! i - at_start ! i) (windows ! i)"
    using assms(3) l1 l2 lw by (simp add: sl)
  have ls: "length slopes = length spiketrain"
    using l1 l2 lw by (simp add: sl)
  show ?thesis
    unfolding Let_def windows_def[symmetric] isi_def[symmetric]
    using wi bd g1 g2 s ls by auto
qed

text \<open>A ramp of slope one, a grid step and a window of one, spikes at 10 and 11.5.\<close>

lemma firing_slope_example:
  "firing_slope ieee [0, 1, 2, 3, 4, 5, 6, 7, 8, 9, 10, 11] [10, 23 / 2] 1 1 = Inr (Some (1 / 2), [Some 1, Some 0])"
  by (simp add: firing_slope_def firing_windows_def ieee_def to_double_exact astype_int_def py_int_def
        np_get_def np_divide_def np_mean_def Let_def)

text \<open>The theorem at the first spike of that example: the window is 1, the slope 1.\<close>

theorem firing_slope_windows_witness:
  "2 \<le> length [10, 23 / 2 :: real]
   \<and> firing_slope ieee [0, 1, 2, 3, 4, 5, 6, 7, 8, 9, 10, 11] [10, 23 / 2] 1 1 = Inr (Some (1 / 2), [Some 1, Some 0])
   \<and> (0::nat) < length [10, 23 / 2 :: real]
   \<and> firing_windows ieee (max 1 1) 1 [10, 23 / 2] ! 0 = 1
   \<and> np_get [0, 1, 2, 3, 4, 5, 6, 7, 8, 9, 10, 11] (py_int (fl_div ieee 10 1)) = Inr 10
   \<and> np_get [0, 1, 2, 3, 4, 5, 6, 7, 8, 9, 10, 11] (py_int (fl_div ieee 10 1) - py_int (fl_div ieee 1 1)) = Inr 9
   \<and> [Some 1, Some 0] ! 0 = np_divide (10 - 9) 1"
proof -
  have h1: "2 \<le> length [10, 23 / 2 :: real]" by simp
  have h3: "(0::nat) < length [10, 23 / 2 :: real]" by simp
  have g1: "np_get [0, 1, 2, 3, 4, 5, 6, 7, 8, 9, 10, 11] (py_int (fl_div ieee 10 1)) = Inr 10"
    by (simp add: np_get_def py_int_def ieee_def to_double_exact)
  have g2: "np_get [0, 1, 2, 3, 4, 5, 6, 7, 8, 9, 10, 11] (py_int (fl_div ieee 10 1) - py_int (fl_div ieee 1 1)) = Inr 9"
    by (simp add: np_get_def py_int_def ieee_def to_double_exact)
  from firing_slope_windows [OF h1 firing_slope_example h3]
  have "firing_windows ieee (max 1 1) 1 [10, 23 / 2] ! 0 = 1
        \<and> (\<exists>a b. np_get [0, 1, 2, 3, 4, 5, 6, 7, 8, 9, 10, 11] (py_int (fl_div ieee 10 1)) = Inr a
              \<and> np_get [0, 1, 2, 3, 4, 5, 6, 7, 8, 9, 10, 11] (py_int (fl_div ieee 10 1) - py_int (fl_div ieee 1 1)) = Inr b
              \<and> [Some 1, Some 0] ! 0 = np_divide (a - b) 1)"
    by (simp add: Let_def ieee_def to_double_exact)
  then show ?thesis
    using h1 h3 firing_slope_example g1 g2 by auto
qed

text \<open>
  The second spike of that example follows the first by 1.5 steps: its window is half a
  step, below \<open>dt\<close>. And with \<open>w = 0.5\<close>, \<open>dt = 1\<close> and spikes at 10 and 20 the window of the
  second spike is 1, not \<open>min(w, isi - dt) = 0.5\<close>.
\<close>

theorem firing_slope_window_counterexample:
  "firing_windows ieee (max 1 1) 1 [10, 23 / 2] ! 1 = 1 / 2
   \<and> (1 / 2 :: real) < 1
   \<and> firing_slope ieee [0, 1, 2, 3, 4, 5, 6, 7, 8, 9, 10, 11] [10, 23 / 2] 1 1 = Inr (Some (1 / 2), [Some 1, Some 0])
   \<and> firing_windows ieee (max (1 / 2) 1) 1 [10, 20] ! 1 = 1
   \<and> min (1 / 2) (20 - 10 - 1 :: real) = 1 / 2"
  by (simp add: firing_slope_example) (simp add: firing_windows_def ieee_def to_double_exact)

text \<open>
  C10: when \<open>norm_firing_slope\<close> returns and at least two spikes are retained (those
  after the window, which is \<open>w\<close> or \<open>dt\<close> if that is larger), the vector it returns has
  one value less than there are retained spikes, as many as the retained train has
  intervals. It is computed from the raw slopes without the first, \<open>slopes[1:]\<close>, and
  the mean it returns is the mean of that vector.
\<close>

theorem norm_firing_slope_length:
  assumes "norm_firing_slope fl mem spiketrain th tau dt w = Inr (m, normed)"
    and "2 \<le> length (filter (\<lambda>t. (if w < dt then dt else w) < t) spiketrain)"
  shows "length normed = length (filter (\<lambda>t. (if w < dt then dt else w) < t) spiketrain) - 1
       \<and> length normed = length (np_diff (filter (\<lambda>t. (if w < dt then dt else w) < t) spiketrain))
       \<and> m = np_mean normed
       \<and> (\<exists>ms slopes slope_max slope_min.
               firing_slope fl mem (filter (\<lambda>t. (if w < dt then dt else w) < t) spiketrain) dt
                          (if w < dt then dt else w) = Inr (ms, slopes)
             \<and> length slopes = length (filter (\<lambda>t. (if w < dt then dt else w) < t) spiketrain)
             \<and> length slope_min = length (tl slopes)
             \<and> normed = map2 (\<lambda>s lo. fdiv (lift2 (-) s lo) (lift2 (-) slope_max lo)) (tl slopes) slope_min)"
proof -
  define w1 where "w1 = (if w < dt then dt else w)"
  define retained where "retained = filter (\<lambda>t. w1 < t) spiketrain"
  have r2: "2 \<le> length retained" using assms(2) by (simp add: retained_def w1_def)
  then have "length retained \<le> length spiketrain" by (simp add: retained_def)
  with r2 have n2: "\<not> length spiketrain < 2" by simp
  from assms(1) n2 obtain ms slopes where
    fs: "firing_slope fl mem retained dt w1 = Inr (ms, slopes)"
    by (auto simp: norm_firing_slope_def Let_def w1_def retained_def split: sum.splits)
  have ls: "length slopes = length retained"
    using firing_slope_length[OF r2 fs] .
  from assms(1) n2 fs obtain first_spk later reset where
    re: "retained = first_spk # later" and d0: "dt \<noteq> 0" and
    rs: "np_get mem (py_int (fl_div fl first_spk dt) + 1) = Inr reset"
    unfolding norm_firing_slope_def Let_def w1_def[symmetric] retained_def[symmetric]
    by (auto split: sum.splits list.splits if_splits)
  define slope_max where "slope_max = np_divide (th - reset) w1"
  define ISIs where "ISIs = np_diff retained"
  define min_input where "min_input = map (\<lambda>isi. fdiv (Some (th - reset))
      (map_option (\<lambda>q. 1 - exp q) (np_divide (- isi) tau))) ISIs"
  define lowstart where "lowstart = map2 (\<lambda>isi m. lift2 (+) (Some reset)
      (lift2 (*) m (map_option (\<lambda>q. 1 - exp q) (np_divide (- (isi - w1)) tau)))) ISIs min_input"
  define slope_min where "slope_min = map (\<lambda>l. fdiv (map_option (\<lambda>v. th - v) l) (Some w1)) lowstart"
  have sm: "length slope_min = length (np_diff retained)"
    by (simp add: slope_min_def lowstart_def min_input_def ISIs_def)
  define N where "N = map2 (\<lambda>s lo. fdiv (lift2 (-) s lo) (lift2 (-) slope_max lo)) (tl slopes) slope_min"
  have "norm_firing_slope fl mem spiketrain th tau dt w = Inr (np_mean N, N)"
    using n2 fs re d0 rs
    unfolding norm_firing_slope_def Let_def w1_def[symmetric] retained_def[symmetric]
      N_def slope_min_def lowstart_def min_input_def ISIs_def slope_max_def
    by simp
  with assms(1) have "normed = N" and me: "m = np_mean normed"
    by auto
  then have nm: "normed = map2 (\<lambda>s lo. fdiv (lift2 (-) s lo) (lift2 (-) slope_max lo)) (tl slopes) slope_min"
    by (simp add: N_def)
  have sl: "length slope_min = length (tl slopes)"
    using sm ls by (simp add: np_diff_length)
  have "length normed = length retained - 1"
    using nm sl ls by simp
  with ls fs sl nm me show ?thesis
    unfolding w1_def[symmetric] retained_def[symmetric]
    by (auto simp: np_diff_length)
qed

text \<open>
  The theorem on a ramp with spikes at 0.5, 2, 4 and 7, a window and a grid step of one:
  three spikes are retained and two normalised slopes returned.
\<close>

theorem norm_firing_slope_length_witness:
  "2 \<le> length (filter (\<lambda>t. (if (1::real) < 1 then 1 else 1) < t) [1 / 2, 2, 4, 7 :: real])
   \<and> length (filter (\<lambda>t. (if (1::real) < 1 then 1 else 1) < t) [1 / 2, 2, 4, 7 :: real]) = 3
   \<and> (\<exists>m normed. norm_firing_slope ieee [0, 1, 2, 3, 4, 5, 6, 7, 8, 9] [1 / 2, 2, 4, 7] 20 1 1 1 = Inr (m, normed)
         \<and> length normed = 2)"
proof -
  have h2: "2 \<le> length (filter (\<lambda>t. (if (1::real) < 1 then 1 else 1) < t) [1 / 2, 2, 4, 7 :: real])"
    by simp
  have "\<exists>m normed. norm_firing_slope ieee [0, 1, 2, 3, 4, 5, 6, 7, 8, 9] [1 / 2, 2, 4, 7] 20 1 1 1 = Inr (m, normed)"
    by (simp add: norm_firing_slope_def firing_slope_def firing_windows_def ieee_def to_double_exact
          astype_int_def py_int_def np_get_def Let_def)
  then obtain m normed where
    h1: "norm_firing_slope ieee [0, 1, 2, 3, 4, 5, 6, 7, 8, 9] [1 / 2, 2, 4, 7] 20 1 1 1 = Inr (m, normed)"
    by blast
  from norm_firing_slope_length [OF h1 h2] have "length normed = 2" by simp
  with h1 h2 show ?thesis by auto
qed

subsection \<open>Windows of the spike-triggered average\<close>

lemma sta_rows_windows:
  assumes "0 \<le> w_d"
    and "\<forall>s \<in> set spiketrain. 0 \<le> py_int (fl_div fl s dt) \<and> py_int (fl_div fl s dt) \<le> int (length v)"
  shows "\<exists>wins. sta_rows fl v w_d dt spiketrain = Inr wins \<and> length wins = length spiketrain
           \<and> (\<forall>i < length spiketrain.
                 wins ! i =
                  (if nat w_d \<le> nat (py_int (fl_div fl (spiketrain ! i) dt))
                   then take (nat w_d) (drop (nat (py_int (fl_div fl (spiketrain ! i) dt)) - nat w_d) v)
                   else replicate (nat w_d - nat (py_int (fl_div fl (spiketrain ! i) dt))) 0
                          @ take (nat (py_int (fl_div fl (spiketrain ! i) dt))) v))"
  using assms(2)
proof (induction spiketrain)
  case Nil
  then show ?case by simp
next
  case (Cons st rest)
  define t_d where "t_d = py_int (fl_div fl st dt)"
  have t: "0 \<le> t_d" "t_d \<le> int (length v)" using Cons.prems by (simp_all add: t_d_def)
  define curwin where "curwin = (if w_d < t_d then py_slice v (t_d - w_d) t_d
                    else replicate (nat (w_d - t_d)) 0 @ py_slice_to v t_d)"
  have cw: "curwin = (if nat w_d \<le> nat t_d then take (nat w_d) (drop (nat t_d - nat w_d) v)
                   else replicate (nat w_d - nat t_d) 0 @ take (nat t_d) v)"
  proof (cases "w_d < t_d")
    case True
    then show ?thesis using assms(1) t
      by (simp add: curwin_def py_slice_def nat_diff_distrib)
  next
    case False
    show ?thesis
    proof (cases "w_d = t_d")
      case True
      then show ?thesis using t by (simp add: curwin_def py_slice_to_def)
    next
      case False
      with \<open>\<not> w_d < t_d\<close> have "t_d < w_d" by simp
      then show ?thesis using assms(1) t
        by (simp add: curwin_def py_slice_to_def nat_diff_distrib)
    qed
  qed
  have len: "length curwin = nat w_d"
    using assms(1) t by (auto simp: cw)
  then have row: "np_set_row (nat w_d) curwin = Inr curwin"
    by (simp add: np_set_row_def)
  from Cons.IH Cons.prems obtain wins where
    w: "sta_rows fl v w_d dt rest = Inr wins" "length wins = length rest"
       "\<forall>i < length rest. wins ! i =
                  (if nat w_d \<le> nat (py_int (fl_div fl (rest ! i) dt))
                   then take (nat w_d) (drop (nat (py_int (fl_div fl (rest ! i) dt)) - nat w_d) v)
                   else replicate (nat w_d - nat (py_int (fl_div fl (rest ! i) dt))) 0
                          @ take (nat (py_int (fl_div fl (rest ! i) dt))) v)"
    by auto
  have r: "sta_rows fl v w_d dt (st # rest) = Inr (curwin # wins)"
    using row w(1) unfolding curwin_def t_d_def by (simp add: Let_def)
  show ?case
  proof (intro exI conjI allI impI)
    show "sta_rows fl v w_d dt (st # rest) = Inr (curwin # wins)" by (rule r)
    show "length (curwin # wins) = length (st # rest)" using w(2) by simp
  next
    fix i assume "i < length (st # rest)"
    then show "(curwin # wins) ! i =
         (if nat w_d \<le> nat (py_int (fl_div fl ((st # rest) ! i) dt))
          then take (nat w_d) (drop (nat (py_int (fl_div fl ((st # rest) ! i) dt)) - nat w_d) v)
          else replicate (nat w_d - nat (py_int (fl_div fl ((st # rest) ! i) dt))) 0 @
               take (nat (py_int (fl_div fl ((st # rest) ! i) dt))) v)"
      using w(3) cw by (cases i) (simp_all add: t_d_def)
  qed
qed

text \<open>
  C8, as the code has it: for a train of at least two spikes, a grid step that is not
  zero, a window of \<open>w_d = int(w/dt) \<ge> 0\<close> samples and a trace that holds at least
  \<open>t_d = int(st/dt) \<ge> 0\<close> samples for every spike \<open>st\<close>, \<open>sta\<close> returns one row of
  \<open>w_d\<close> samples per spike: the \<open>w_d\<close> samples of the trace that end before index
  \<open>t_d\<close> when there are that many, and else zeros on the left followed by the \<open>t_d\<close>
  samples there are. \<open>w_d\<close> and \<open>t_d\<close> are the float quotients of the code,
  truncated: whatever the rounding of the division makes of them.
\<close>

theorem sta_windows:
  assumes "2 \<le> length spiketrain" and "dt \<noteq> 0" and "0 \<le> py_int (fl_div fl w dt)"
    and "\<forall>s \<in> set spiketrain. 0 \<le> py_int (fl_div fl s dt) \<and> py_int (fl_div fl s dt) \<le> int (length v)"
  shows "\<exists>avg sd wins. sta fl v spiketrain w dt = Inr (avg, sd, wins)
           \<and> length wins = length spiketrain
           \<and> (\<forall>i < length spiketrain.
                 let w_d = nat (py_int (fl_div fl w dt)); t_d = nat (py_int (fl_div fl (spiketrain ! i) dt))
                 in length (wins ! i) = w_d
                    \<and> wins ! i = (if w_d \<le> t_d then take w_d (drop (t_d - w_d) v)
                                  else replicate (w_d - t_d) 0 @ take t_d v))"
proof -
  from sta_rows_windows[where fl = fl and dt = dt and w_d = "py_int (fl_div fl w dt)", OF assms(3,4)] obtain wins where
    w: "sta_rows fl v (py_int (fl_div fl w dt)) dt spiketrain = Inr wins" "length wins = length spiketrain"
       "\<forall>i < length spiketrain.
                 wins ! i =
                  (if nat (py_int (fl_div fl w dt)) \<le> nat (py_int (fl_div fl (spiketrain ! i) dt))
                   then take (nat (py_int (fl_div fl w dt))) (drop (nat (py_int (fl_div fl (spiketrain ! i) dt)) - nat (py_int (fl_div fl w dt))) v)
                   else replicate (nat (py_int (fl_div fl w dt)) - nat (py_int (fl_div fl (spiketrain ! i) dt))) 0
                          @ take (nat (py_int (fl_div fl (spiketrain ! i) dt))) v)"
    by blast
  have s: "sta fl v spiketrain w dt = Inr (map (column_mean wins) [0..<nat (py_int (fl_div fl w dt))],
                          map (column_std wins) [0..<nat (py_int (fl_div fl w dt))], wins)"
    using assms(1,2,3) w(1) by (simp add: sta_def Let_def)
  have l: "\<forall>i < length spiketrain. length (wins ! i) = nat (py_int (fl_div fl w dt))"
  proof (intro allI impI)
    fix i assume i: "i < length spiketrain"
    then have "spiketrain ! i \<in> set spiketrain" by simp
    with assms(4) have "py_int (fl_div fl (spiketrain ! i) dt) \<le> int (length v)" "0 \<le> py_int (fl_div fl (spiketrain ! i) dt)" by auto
    then show "length (wins ! i) = nat (py_int (fl_div fl w dt))"
      using w(3) i by auto
  qed
  show ?thesis
    using s w(2,3) l by (auto simp: Let_def)
qed

text \<open>
  The theorem on six samples with spikes at the indices 2 and 5 and a window of three:
  the first row is padded with one zero.
\<close>

theorem sta_windows_witness:
  "2 \<le> length [2, 5 :: real] \<and> (1::real) \<noteq> 0 \<and> 0 \<le> py_int (fl_div ieee 3 1)
   \<and> py_int (fl_div ieee 2 1) = 2 \<and> py_int (fl_div ieee 5 1) = 5 \<and> length [1, 2, 3, 4, 5, 6 :: real] = 6
   \<and> (\<exists>avg sd. sta ieee [1, 2, 3, 4, 5, 6] [2, 5] 3 1 = Inr (avg, sd, [[0, 1, 2], [3, 4, 5]]))"
proof -
  have h1: "2 \<le> length [2, 5 :: real]" by simp
  have h2: "(1::real) \<noteq> 0" by simp
  have h3: "0 \<le> py_int (fl_div ieee 3 1)" by (simp add: py_int_def ieee_def to_double_exact)
  have p: "py_int (fl_div ieee 2 1) = 2" "py_int (fl_div ieee 5 1) = 5" "py_int (fl_div ieee 3 1) = 3" by (simp_all add: py_int_def ieee_def to_double_exact)
  have h4: "\<forall>s \<in> set [2, 5 :: real]. 0 \<le> py_int (fl_div ieee s 1) \<and> py_int (fl_div ieee s 1) \<le> int (length [1, 2, 3, 4, 5, 6 :: real])"
    by (simp add: py_int_def ieee_def to_double_exact)
  from sta_windows [where fl = ieee and dt = 1 and w = 3, OF h1 h2 h3 h4] obtain avg sd wins where
    s: "sta ieee [1, 2, 3, 4, 5, 6] [2, 5] 3 1 = Inr (avg, sd, wins)" and
    l: "length wins = length [2, 5 :: real]" and
    r: "\<forall>i < length [2, 5 :: real].
          let w_d = nat (py_int (fl_div ieee 3 1)); t_d = nat (py_int (fl_div ieee ([2, 5] ! i) 1))
          in length (wins ! i) = w_d
             \<and> wins ! i = (if w_d \<le> t_d then take w_d (drop (t_d - w_d) [1, 2, 3, 4, 5, 6])
                           else replicate (w_d - t_d) 0 @ take t_d [1, 2, 3, 4, 5, 6])"
    by blast
  from r [rule_format, of 0] r [rule_format, of 1]
  have "wins ! 0 = [0, 1, 2]" "wins ! 1 = [3, 4, 5]"
    by (simp_all add: py_int_def ieee_def to_double_exact Let_def numeral_3_eq_3)
  with l have "wins = [[0, 1, 2], [3, 4, 5]]"
    by (cases wins; cases "tl wins") auto
  with s h1 h2 h3 p show ?thesis by simp
qed

text \<open>
  The claim is stated for every trace. On a trace of two samples with spikes at the
  indices 5 and 10 the slice \<open>v[2:5]\<close> is empty, and its assignment to a row of three
  raises ValueError.
\<close>

theorem sta_short_trace_counterexample: "sta ieee [1, 2] [5, 10] 3 1 = Inl ValueError"
  by (simp add: sta_def ieee_def to_double_exact py_int_def py_slice_def np_set_row_def Let_def)

subsection \<open>The binary grid of a train\<close>

lemma fold_put_length: "length (fold (\<lambda>i ys. ys[f i := (1::real)]) idx xs) = length xs"
  by (induction idx arbitrary: xs) auto

lemma fold_put_nth:
  "j < length xs \<Longrightarrow>
     fold (\<lambda>i ys. ys[f i := (1::real)]) idx xs ! j = (if j \<in> f ` set idx then 1 else xs ! j)"
proof (induction idx arbitrary: xs)
  case Nil
  then show ?case by simp
next
  case (Cons i idx)
  then show ?case by (auto simp: nth_list_update)
qed

lemma np_put_ones_in_range:
  assumes "\<forall>i \<in> set idx. 0 \<le> i \<and> i < int (length xs)"
  shows "\<exists>b. np_put_ones xs idx = Inr b \<and> length b = length xs
           \<and> (\<forall>j < length xs. b ! j = (if int j \<in> set idx then 1 else xs ! j))"
proof -
  have a: "list_all (\<lambda>i. - int (length xs) \<le> i \<and> i < int (length xs)) idx"
    using assms by (auto simp: list_all_iff)
  have f: "fold (\<lambda>i ys. ys[nat (if i < 0 then i + int (length xs) else i) := 1]) idx xs
         = fold (\<lambda>i ys. ys[nat i := 1]) idx xs"
    using assms by (intro fold_cong) auto
  have m: "\<And>j. j \<in> nat ` set idx \<longleftrightarrow> int j \<in> set idx"
    using assms by (force simp: image_iff)
  show ?thesis
    using a by (simp add: np_put_ones_def Let_def f fold_put_length fold_put_nth m)
qed

lemma np_astype_int_in_range:
  assumes "\<forall>q \<in> set qs. - (2 ^ 63) \<le> py_int q \<and> py_int q < 2 ^ 63"
  shows "np_astype_int qs = Inr (map py_int qs)"
  using assms by (induction qs) (simp_all add: astype_int_def)

lemma double_3_2000: "to_double (3 / 2000) = 3458764513820541 / 2 ^ 61"
proof -
  have "to_double (3 / 2000) = of_int 6917529027641082 * 2 powi (- 10 - 52)"
    by (rule to_double_eval) (simp_all add: round_half_even_def power_int_minus field_simps)
  then show ?thesis by (simp add: power_int_minus field_simps)
qed

lemma double_1_1000: "to_double (1 / 1000) = 1152921504606847 / 2 ^ 60"
proof -
  have "to_double (1 / 1000) = of_int 4611686018427388 * 2 powi (- 10 - 52)"
    by (rule to_double_eval) (simp_all add: round_half_even_def power_int_minus field_simps)
  then show ?thesis by (simp add: power_int_minus field_simps)
qed

lemma quotient_scenario_first: "fl_div ieee (3 / 2000) (1 / 1000) = 3 / 2"
proof -
  have q: "to_double ((3458764513820541 / 2 ^ 61) / (1152921504606847 / 2 ^ 60)) = 3 / 2"
  proof -
    have "to_double ((3458764513820541 / 2 ^ 61) / (1152921504606847 / 2 ^ 60)) = of_int 6755399441055744 * 2 powi (0 - 52)"
      by (rule to_double_eval) (simp_all add: round_half_even_def power_int_minus field_simps)
    then show ?thesis by (simp add: power_int_minus field_simps)
  qed
  show ?thesis by (simp only: ieee_def float_ops.select_convs double_3_2000 double_1_1000 q)
qed

lemma double_1_400: "to_double (1 / 400) = 5764607523034235 / 2 ^ 61"
proof -
  have "to_double (1 / 400) = of_int 5764607523034235 * 2 powi (- 9 - 52)"
    by (rule to_double_eval) (simp_all add: round_half_even_def power_int_minus field_simps)
  then show ?thesis by (simp add: power_int_minus field_simps)
qed

lemma quotient_scenario_second: "fl_div ieee (1 / 400) (1 / 1000) = 5 / 2"
proof -
  have q: "to_double ((5764607523034235 / 2 ^ 61) / (1152921504606847 / 2 ^ 60)) = 5 / 2"
  proof -
    have "to_double ((5764607523034235 / 2 ^ 61) / (1152921504606847 / 2 ^ 60)) = of_int 5629499534213120 * 2 powi (1 - 52)"
      by (rule to_double_eval) (simp_all add: round_half_even_def power_int_minus field_simps)
    then show ?thesis by (simp add: power_int_minus field_simps)
  qed
  show ?thesis by (simp only: ieee_def float_ops.select_convs double_1_400 double_1_1000 q)
qed

lemma double_1_250: "to_double (1 / 250) = 1152921504606847 / 2 ^ 58"
proof -
  have "to_double (1 / 250) = of_int 4611686018427388 * 2 powi (- 8 - 52)"
    by (rule to_double_eval) (simp_all add: round_half_even_def power_int_minus field_simps)
  then show ?thesis by (simp add: power_int_minus field_simps)
qed

lemma quotient_scenario_duration: "fl_div ieee (1 / 250) (1 / 1000) = 4"
proof -
  have q: "to_double ((1152921504606847 / 2 ^ 58) / (1152921504606847 / 2 ^ 60)) = 4"
  proof -
    have "to_double ((1152921504606847 / 2 ^ 58) / (1152921504606847 / 2 ^ 60)) = of_int 4503599627370496 * 2 powi (2 - 52)"
      by (rule to_double_eval) (simp_all add: round_half_even_def power_int_minus field_simps)
    then show ?thesis by (simp add: power_int_minus field_simps)
  qed
  show ?thesis by (simp only: ieee_def float_ops.select_convs double_1_250 double_1_1000 q)
qed

lemma times_to_bin_scenario:
  "times_to_bin ieee [3 / 2000, 1 / 400] (1 / 1000) (Some (1 / 250)) = Inr [0, 1, 1, 0]"
  by (simp add: times_to_bin_def quotient_scenario_first quotient_scenario_second
        quotient_scenario_duration astype_int_def py_int_def np_zeros_def np_put_ones_def Let_def
        numeral_eq_Suc)

text \<open>
  C4, as the code has it. The bin of a time \<open>s\<close> is \<open>int(s/dt)\<close>, the float quotient
  truncated. Let the bins of the spikes be 64-bit integers that are not negative, none
  of them larger than the bin of the last spike: so it is for an ascending train of
  times that are not negative and a positive \<open>dt\<close>, since the float division by
  \<open>dt\<close> keeps the sign and the order. Let \<open>int(duration/dt)\<close> not be negative. Then
  \<open>times_to_bin\<close> returns a vector of \<open>int(duration/dt)\<close> bins (the quotient
  truncated, not rounded up), in which bin \<open>j\<close> is 1 if \<open>j\<close> is the bin of a spike
  and 0 otherwise; the spikes beyond the grid are dropped. This holds when the bin of
  the last spike is not the number of bins itself; nothing is stated for that case.
  And on doubles \<open>times_to_bin([0.0015, 0.0025], dt=0.001, duration=0.004)\<close> is
  \<open>[0, 1, 1, 0]\<close>.
\<close>

theorem times_to_bin_grid:
  assumes "dt \<noteq> 0" and "0 \<le> py_int (fl_div fl duration dt)"
    and "\<forall>s \<in> set spikes. 0 \<le> py_int (fl_div fl s dt) \<and> py_int (fl_div fl s dt) < 2 ^ 63
            \<and> py_int (fl_div fl s dt) \<le> py_int (fl_div fl (last spikes) dt)"
    and "spikes \<noteq> [] \<longrightarrow> py_int (fl_div fl (last spikes) dt) \<noteq> py_int (fl_div fl duration dt)"
  shows "(\<exists>b. times_to_bin fl spikes dt (Some duration) = Inr b
              \<and> length b = nat (py_int (fl_div fl duration dt))
              \<and> (\<forall>j < length b. b ! j = (if \<exists>s \<in> set spikes. py_int (fl_div fl s dt) = int j then 1 else 0)))
         \<and> times_to_bin ieee [3 / 2000, 1 / 400] (1 / 1000) (Some (1 / 250)) = Inr [0, 1, 1, 0]"
proof -
  define L where "L = py_int (fl_div fl duration dt)"
  have L0: "0 \<le> L" using assms(2) by (simp add: L_def)
  have z: "np_zeros L = Inr (replicate (nat L) 0)" using L0 by (simp add: np_zeros_def)
  have main: "\<exists>b. times_to_bin fl spikes dt (Some duration) = Inr b
              \<and> length b = nat L
              \<and> (\<forall>j < length b. b ! j = (if \<exists>s \<in> set spikes. py_int (fl_div fl s dt) = int j then 1 else 0))"
  proof (cases "spikes = []")
    case True
    then show ?thesis using assms(1) z by (simp add: times_to_bin_def L_def)
  next
    case False
    define st where "st = map (\<lambda>t. py_int (fl_div fl t dt)) spikes"
    define st1 where "st1 = (if last st > L then filter (\<lambda>i. i < L) st else st)"
    have ne: "st \<noteq> []" using False by (simp add: st_def)
    have nn: "\<forall>i \<in> set st. 0 \<le> i"
      using assms(3) by (auto simp: st_def)
    have "\<forall>q \<in> set (map (\<lambda>t. fl_div fl t dt) spikes). - (2 ^ 63) \<le> py_int q \<and> py_int q < 2 ^ 63"
    proof
      fix q assume "q \<in> set (map (\<lambda>t. fl_div fl t dt) spikes)"
      then obtain s where s: "s \<in> set spikes" "q = fl_div fl s dt" by auto
      with assms(3) have "0 \<le> py_int q" "py_int q < 2 ^ 63" by auto
      then show "- (2 ^ 63) \<le> py_int q \<and> py_int q < 2 ^ 63" by simp
    qed
    from np_astype_int_in_range[OF this]
    have cast: "np_astype_int (map (\<lambda>t. fl_div fl t dt) spikes) = Inr st"
      by (simp add: st_def o_def)
    have la: "last st = py_int (fl_div fl (last spikes) dt)"
      using False by (simp add: st_def last_map)
    have le: "\<forall>i \<in> set st. i \<le> last st"
      using assms(3) unfolding la by (auto simp: st_def)
    have neq: "last st \<noteq> L" using assms(4) False by (simp add: la L_def)
    have rng: "\<forall>i \<in> set st1. 0 \<le> i \<and> i < int (length (replicate (nat L) (0::real)))"
    proof (cases "last st > L")
      case True
      then show ?thesis using nn L0 by (auto simp: st1_def)
    next
      case False
      with neq have "last st < L" by simp
      with le have "\<forall>i \<in> set st. i < L" by force
      then show ?thesis using nn L0 False by (auto simp: st1_def)
    qed
    have mem: "\<And>j. j < nat L \<Longrightarrow> int j \<in> set st1 \<longleftrightarrow> (\<exists>s \<in> set spikes. py_int (fl_div fl s dt) = int j)"
    proof -
      fix j assume j: "j < nat L"
      have "int j \<in> set st1 \<longleftrightarrow> int j \<in> set st"
        using j by (auto simp: st1_def)
      also have "\<dots> \<longleftrightarrow> (\<exists>s \<in> set spikes. py_int (fl_div fl s dt) = int j)"
        by (force simp: st_def image_iff)
      finally show "int j \<in> set st1 \<longleftrightarrow> (\<exists>s \<in> set spikes. py_int (fl_div fl s dt) = int j)" .
    qed
    from np_put_ones_in_range[OF rng] obtain b where
      b: "np_put_ones (replicate (nat L) 0) st1 = Inr b" "length b = nat L"
         "\<forall>j < nat L. b ! j = (if int j \<in> set st1 then 1 else 0)"
      by auto
    have "times_to_bin fl spikes dt (Some duration) = Inr b"
      using False assms(1) z ne b(1) cast
      unfolding st1_def L_def
      by (simp add: times_to_bin_def Let_def)
    with b(2,3) mem show ?thesis by auto
  qed
  show ?thesis using main times_to_bin_scenario by (simp add: L_def)
qed

text \<open>
  The theorem at spikes of 1.5, 2.5 and 10, a bin of 1 and a duration of 4.5: four
  bins, and the last spike, in bin 10, is dropped.
\<close>

theorem times_to_bin_grid_witness:
  "(1::real) \<noteq> 0
   \<and> py_int (fl_div ieee (3 / 2) 1) = 1 \<and> py_int (fl_div ieee (5 / 2) 1) = 2
   \<and> py_int (fl_div ieee (last [3 / 2, 5 / 2, 10]) 1) = 10 \<and> py_int (fl_div ieee (9 / 2) 1) = 4
   \<and> times_to_bin ieee [3 / 2, 5 / 2, 10] 1 (Some (9 / 2)) = Inr [0, 1, 1, 0]"
proof -
  have h1: "(1::real) \<noteq> 0" by simp
  have p: "py_int (fl_div ieee (3 / 2) 1) = 1" "py_int (fl_div ieee (5 / 2) 1) = 2"
    "py_int (fl_div ieee 10 1) = 10" "py_int (fl_div ieee (9 / 2) 1) = 4"
    by (simp_all add: py_int_def ieee_def to_double_exact)
  have h2: "0 \<le> py_int (fl_div ieee (9 / 2) 1)" by (simp add: p)
  have h3: "\<forall>s \<in> set [3 / 2, 5 / 2, 10 :: real].
      0 \<le> py_int (fl_div ieee s 1) \<and> py_int (fl_div ieee s 1) < 2 ^ 63
      \<and> py_int (fl_div ieee s 1) \<le> py_int (fl_div ieee (last [3 / 2, 5 / 2, 10]) 1)"
    by (simp add: p)
  have h4: "[3 / 2, 5 / 2, 10 :: real] \<noteq> []
      \<longrightarrow> py_int (fl_div ieee (last [3 / 2, 5 / 2, 10]) 1) \<noteq> py_int (fl_div ieee (9 / 2) 1)"
    by (simp add: p)
  from times_to_bin_grid [OF h1 h2 h3 h4] obtain b where
    b: "times_to_bin ieee [3 / 2, 5 / 2, 10] 1 (Some (9 / 2)) = Inr b"
       "length b = nat (py_int (fl_div ieee (9 / 2) 1))"
       "\<forall>j < length b. b ! j = (if \<exists>s \<in> set [3 / 2, 5 / 2, 10 :: real]. py_int (fl_div ieee s 1) = int j then 1 else 0)"
    by blast
  have l: "length b = 4" using b(2) p(4) by simp
  from b(3) l have "b ! 0 = 0" "b ! 1 = 1" "b ! 2 = 1" "b ! 3 = 0"
    by (simp_all add: p)
  with l have "b = [0, 1, 1, 0]"
    by (intro nth_equalityI) (auto simp: less_Suc_eq numeral_eq_Suc)
  with b(1) h1 p show ?thesis by simp
qed

text \<open>
  A duration of 4.5 bins gives four bins, and not the five of the quotient rounded up.
\<close>

theorem times_to_bin_length_counterexample:
  "times_to_bin ieee [3 / 2] 1 (Some (9 / 2)) = Inr [0, 1, 0, 0]
   \<and> \<lceil>fl_div ieee (9 / 2) 1\<rceil> = 5"
proof -
  have p: "fl_div ieee (3 / 2) 1 = 3 / 2" "fl_div ieee (9 / 2) 1 = 9 / 2"
    by (simp_all add: ieee_def to_double_exact)
  show ?thesis
    by (simp add: times_to_bin_def p astype_int_def np_zeros_def np_put_ones_def
          py_int_def Let_def numeral_eq_Suc)
qed

text \<open>
  The case left out above: a spike in the bin just after the grid is not dropped, since
  the test is \<open>st[-1] > binlength\<close>, and the assignment raises IndexError.
\<close>

lemma times_to_bin_boundary_spike:
  "times_to_bin ieee [4] 1 (Some 4) = Inl IndexError"
proof -
  have p: "fl_div ieee 4 1 = 4" by (simp add: ieee_def to_double_exact)
  show ?thesis
    by (simp add: times_to_bin_def p astype_int_def np_zeros_def np_put_ones_def py_int_def Let_def)
qed

subsection \<open>Containers accepted by the binning functions\<close>























text \<open>The case left out above: both functions refuse a numpy array.\<close>

lemma array_is_refused:
  "PSTH fl (NdArray two_trains) 1 1 (Some 5) = Inl TypeError"
  "times_to_bin_multi fl (NdArray two_trains) 1 (Some 5) = Inl TypeError"
  by (simp_all add: PSTH_def times_to_bin_multi_def)

subsection \<open>Times on the grid of the simulator\<close>

text \<open>
  On doubles a time that lies on the grid need not fall into the bin of its exact
  quotient: \<open>0.0003/0.0001\<close> is \<open>2.9999999999999996\<close> and \<open>0.0006/0.0001\<close> is
  \<open>5.999999999999999\<close>, while \<open>0.0005/0.0001\<close> is 5, \<open>0.001/0.0001\<close> is 10,
  \<open>1.0/0.1\<close> is 10 and \<open>1.05/0.1\<close> is 10.5. The doubles are written with their 53
  digits and the power of two.
\<close>

lemma double_3_10000: "to_double (3 / 10000) = 5534023222112865 / 2 ^ 64"
proof -
  have "to_double (3 / 10000) = of_int 5534023222112865 * 2 powi (- 12 - 52)"
    by (rule to_double_eval) (simp_all add: round_half_even_def power_int_minus field_simps)
  then show ?thesis by (simp add: power_int_minus field_simps)
qed

lemma double_1_10000: "to_double (1 / 10000) = 7378697629483821 / 2 ^ 66"
proof -
  have "to_double (1 / 10000) = of_int 7378697629483821 * 2 powi (- 14 - 52)"
    by (rule to_double_eval) (simp_all add: round_half_even_def power_int_minus field_simps)
  then show ?thesis by (simp add: power_int_minus field_simps)
qed

lemma quotient_3_steps: "fl_div ieee (3 / 10000) (1 / 10000) = 6755399441055743 / 2 ^ 51"
proof -
  have q: "to_double ((5534023222112865 / 2 ^ 64) / (7378697629483821 / 2 ^ 66)) = 6755399441055743 / 2 ^ 51"
  proof -
    have "to_double ((5534023222112865 / 2 ^ 64) / (7378697629483821 / 2 ^ 66)) = of_int 6755399441055743 * 2 powi (1 - 52)"
      by (rule to_double_eval) (simp_all add: round_half_even_def power_int_minus field_simps)
    then show ?thesis by (simp add: power_int_minus field_simps)
  qed
  show ?thesis by (simp only: ieee_def float_ops.select_convs double_3_10000 double_1_10000 q)
qed

lemma double_1_2000: "to_double (1 / 2000) = 1152921504606847 / 2 ^ 61"
proof -
  have "to_double (1 / 2000) = of_int 4611686018427388 * 2 powi (- 11 - 52)"
    by (rule to_double_eval) (simp_all add: round_half_even_def power_int_minus field_simps)
  then show ?thesis by (simp add: power_int_minus field_simps)
qed

lemma quotient_5_steps: "fl_div ieee (1 / 2000) (1 / 10000) = 5"
proof -
  have q: "to_double ((1152921504606847 / 2 ^ 61) / (7378697629483821 / 2 ^ 66)) = 5"
  proof -
    have "to_double ((1152921504606847 / 2 ^ 61) / (7378697629483821 / 2 ^ 66)) = of_int 5629499534213120 * 2 powi (2 - 52)"
      by (rule to_double_eval) (simp_all add: round_half_even_def power_int_minus field_simps)
    then show ?thesis by (simp add: power_int_minus field_simps)
  qed
  show ?thesis by (simp only: ieee_def float_ops.select_convs double_1_2000 double_1_10000 q)
qed

lemma double_3_5000: "to_double (3 / 5000) = 5534023222112865 / 2 ^ 63"
proof -
  have "to_double (3 / 5000) = of_int 5534023222112865 * 2 powi (- 11 - 52)"
    by (rule to_double_eval) (simp_all add: round_half_even_def power_int_minus field_simps)
  then show ?thesis by (simp add: power_int_minus field_simps)
qed

lemma quotient_6_steps: "fl_div ieee (3 / 5000) (1 / 10000) = 6755399441055743 / 2 ^ 50"
proof -
  have q: "to_double ((5534023222112865 / 2 ^ 63) / (7378697629483821 / 2 ^ 66)) = 6755399441055743 / 2 ^ 50"
  proof -
    have "to_double ((5534023222112865 / 2 ^ 63) / (7378697629483821 / 2 ^ 66)) = of_int 6755399441055743 * 2 powi (2 - 52)"
      by (rule to_double_eval) (simp_all add: round_half_even_def power_int_minus field_simps)
    then show ?thesis by (simp add: power_int_minus field_simps)
  qed
  show ?thesis by (simp only: ieee_def float_ops.select_convs double_3_5000 double_1_10000 q)
qed

lemma quotient_10_steps: "fl_div ieee (1 / 1000) (1 / 10000) = 10"
proof -
  have q: "to_double ((1152921504606847 / 2 ^ 60) / (7378697629483821 / 2 ^ 66)) = 10"
  proof -
    have "to_double ((1152921504606847 / 2 ^ 60) / (7378697629483821 / 2 ^ 66)) = of_int 5629499534213120 * 2 powi (3 - 52)"
      by (rule to_double_eval) (simp_all add: round_half_even_def power_int_minus field_simps)
    then show ?thesis by (simp add: power_int_minus field_simps)
  qed
  show ?thesis by (simp only: ieee_def float_ops.select_convs double_1_1000 double_1_10000 q)
qed

lemma quotient_1_step: "fl_div ieee (1 / 10000) (1 / 10000) = 1"
proof -
  have q: "to_double ((7378697629483821 / 2 ^ 66) / (7378697629483821 / 2 ^ 66)) = 1"
  proof -
    have "to_double ((7378697629483821 / 2 ^ 66) / (7378697629483821 / 2 ^ 66)) = of_int 4503599627370496 * 2 powi (0 - 52)"
      by (rule to_double_eval) (simp_all add: round_half_even_def power_int_minus field_simps)
    then show ?thesis by (simp add: power_int_minus field_simps)
  qed
  show ?thesis by (simp only: ieee_def float_ops.select_convs double_1_10000 q)
qed

lemma double_1: "to_double 1 = 1"
proof -
  have "to_double (1) = of_int 4503599627370496 * 2 powi (0 - 52)"
    by (rule to_double_eval) (simp_all add: round_half_even_def power_int_minus field_simps)
  then show ?thesis by (simp add: power_int_minus field_simps)
qed

lemma double_1_10: "to_double (1 / 10) = 3602879701896397 / 2 ^ 55"
proof -
  have "to_double (1 / 10) = of_int 7205759403792794 * 2 powi (- 4 - 52)"
    by (rule to_double_eval) (simp_all add: round_half_even_def power_int_minus field_simps)
  then show ?thesis by (simp add: power_int_minus field_simps)
qed

lemma quotient_10_tenths: "fl_div ieee 1 (1 / 10) = 10"
proof -
  have q: "to_double (1 / (3602879701896397 / 2 ^ 55)) = 10"
  proof -
    have "to_double (1 / (3602879701896397 / 2 ^ 55)) = of_int 5629499534213120 * 2 powi (3 - 52)"
      by (rule to_double_eval) (simp_all add: round_half_even_def power_int_minus field_simps)
    then show ?thesis by (simp add: power_int_minus field_simps)
  qed
  show ?thesis by (simp only: ieee_def float_ops.select_convs double_1 double_1_10 q)
qed

lemma double_21_20: "to_double (21 / 20) = 4728779608739021 / 2 ^ 52"
proof -
  have "to_double (21 / 20) = of_int 4728779608739021 * 2 powi (0 - 52)"
    by (rule to_double_eval) (simp_all add: round_half_even_def power_int_minus field_simps)
  then show ?thesis by (simp add: power_int_minus field_simps)
qed

lemma quotient_21_twentieths: "fl_div ieee (21 / 20) (1 / 10) = 21 / 2"
proof -
  have q: "to_double ((4728779608739021 / 2 ^ 52) / (3602879701896397 / 2 ^ 55)) = 21 / 2"
  proof -
    have "to_double ((4728779608739021 / 2 ^ 52) / (3602879701896397 / 2 ^ 55)) = of_int 5910974510923776 * 2 powi (3 - 52)"
      by (rule to_double_eval) (simp_all add: round_half_even_def power_int_minus field_simps)
    then show ?thesis by (simp add: power_int_minus field_simps)
  qed
  show ?thesis by (simp only: ieee_def float_ops.select_convs double_21_20 double_1_10 q)
qed

lemma difference_3_steps_less_1: "fl_sub ieee (3 / 10000) (1 / 10000) = 1844674407370955 / 2 ^ 63"
proof -
  have q: "to_double ((5534023222112865 / 2 ^ 64) - (7378697629483821 / 2 ^ 66)) = 1844674407370955 / 2 ^ 63"
  proof -
    have "to_double ((5534023222112865 / 2 ^ 64) - (7378697629483821 / 2 ^ 66)) = of_int 7378697629483820 * 2 powi (- 13 - 52)"
      by (rule to_double_eval) (simp_all add: round_half_even_def power_int_minus field_simps)
    then show ?thesis by (simp add: power_int_minus field_simps)
  qed
  show ?thesis by (simp only: ieee_def float_ops.select_convs double_3_10000 double_1_10000 q)
qed

lemma difference_6_steps_less_3: "fl_sub ieee (3 / 5000) (3 / 10000) = 5534023222112865 / 2 ^ 64"
proof -
  have q: "to_double ((5534023222112865 / 2 ^ 63) - (5534023222112865 / 2 ^ 64)) = 5534023222112865 / 2 ^ 64"
  proof -
    have "to_double ((5534023222112865 / 2 ^ 63) - (5534023222112865 / 2 ^ 64)) = of_int 5534023222112865 * 2 powi (- 12 - 52)"
      by (rule to_double_eval) (simp_all add: round_half_even_def power_int_minus field_simps)
    then show ?thesis by (simp add: power_int_minus field_simps)
  qed
  show ?thesis by (simp only: ieee_def float_ops.select_convs double_3_5000 double_3_10000 q)
qed

lemma double_of_a_double: "to_double (5534023222112865 / 2 ^ 64) = 5534023222112865 / 2 ^ 64"
proof -
  have "to_double (5534023222112865 / 2 ^ 64) = of_int 5534023222112865 * 2 powi (- 12 - 52)"
    by (rule to_double_eval) (simp_all add: round_half_even_def power_int_minus field_simps)
  then show ?thesis by (simp add: power_int_minus field_simps)
qed

lemma difference_interval_less_1: "fl_sub ieee (5534023222112865 / 2 ^ 64) (1 / 10000) = 1844674407370955 / 2 ^ 63"
proof -
  have q: "to_double ((5534023222112865 / 2 ^ 64) - (7378697629483821 / 2 ^ 66)) = 1844674407370955 / 2 ^ 63"
  proof -
    have "to_double ((5534023222112865 / 2 ^ 64) - (7378697629483821 / 2 ^ 66)) = of_int 7378697629483820 * 2 powi (- 13 - 52)"
      by (rule to_double_eval) (simp_all add: round_half_even_def power_int_minus field_simps)
    then show ?thesis by (simp add: power_int_minus field_simps)
  qed
  show ?thesis by (simp only: ieee_def float_ops.select_convs double_of_a_double double_1_10000 q)
qed

text \<open>The bins of these times: the quotients truncated.\<close>

lemma bins_on_the_grid:
  "py_int (fl_div ieee (3 / 10000) (1 / 10000)) = 2"
  "py_int (fl_div ieee (1 / 2000) (1 / 10000)) = 5"
  "py_int (fl_div ieee (3 / 5000) (1 / 10000)) = 5"
  "py_int (fl_div ieee (1 / 1000) (1 / 10000)) = 10"
  "py_int (fl_div ieee 1 (1 / 10)) = 10"
  "py_int (fl_div ieee (21 / 20) (1 / 10)) = 10"
  by (simp_all add: quotient_3_steps quotient_5_steps quotient_6_steps quotient_10_steps
        quotient_10_tenths quotient_21_twentieths py_int_def)

text \<open>
  The spike-triggered average for a window of \<open>0.0003\<close> at the step \<open>0.0001\<close> and
  spikes at \<open>0.0005\<close> and \<open>0.001\<close>: the rows hold two samples, \<open>int(0.0003/0.0001)\<close>
  being 2, and end before the samples 5 and 10.
\<close>

lemma sta_two_samples:
  "\<exists>avg sd. sta ieee [1, 2, 3, 4, 5, 6, 7, 8, 9, 10] [1 / 2000, 1 / 1000] (3 / 10000) (1 / 10000)
      = Inr (avg, sd, [[4, 5], [9, 10]])"
  by (simp add: sta_def quotient_3_steps quotient_5_steps quotient_10_steps py_int_def py_slice_def
        np_set_row_def Let_def)

text \<open>
  A spike at \<open>0.0003\<close> falls into bin 2 of the grid of step \<open>0.0001\<close>. A spike at
  \<open>1.0\<close> falls into bin 10 of the grid of step \<open>0.1\<close>, which for a duration of
  \<open>1.05\<close> is the number of bins, \<open>int(10.5)\<close>: the spike is not dropped, and the
  assignment raises IndexError.
\<close>

lemma times_to_bin_third_step:
  "times_to_bin ieee [3 / 10000] (1 / 10000) (Some (1 / 2000)) = Inr [0, 0, 1, 0, 0]"
  by (simp add: times_to_bin_def quotient_3_steps quotient_5_steps astype_int_def py_int_def
        np_zeros_def np_put_ones_def Let_def numeral_eq_Suc)

lemma times_to_bin_tenth_tenth:
  "times_to_bin ieee [1] (1 / 10) (Some (21 / 20)) = Inl IndexError"
  by (simp add: times_to_bin_def quotient_10_tenths quotient_21_twentieths astype_int_def py_int_def
        np_zeros_def np_put_ones_def Let_def)

text \<open>
  The slopes at the spikes \<open>0.0003\<close> and \<open>0.0006\<close> for \<open>dt = w = 0.0001\<close> on the
  trace of the squares: both windows are \<open>w\<close>, the differences \<open>0.0003 - 0.0001\<close> and
  \<open>(0.0006 - 0.0003) - 0.0001\<close> being \<open>0.00019999999999999998\<close>, and the samples read
  are 2 and 1 for the first spike, 5 and 4 for the second.
\<close>

lemma firing_windows_on_the_grid:
  "firing_windows ieee (1 / 10000) (1 / 10000) [3 / 10000, 3 / 5000] = [1 / 10000, 1 / 10000]"
proof -
  have "firing_windows ieee (1 / 10000) (1 / 10000) [3 / 10000, 3 / 5000]
          = [min (1 / 10000) (1844674407370955 / 2 ^ 63), min (1 / 10000) (1844674407370955 / 2 ^ 63)]"
    by (simp only: firing_windows_def list.case Let_def fl_diff.simps list.map
          difference_3_steps_less_1 difference_6_steps_less_3 difference_interval_less_1)
  then show ?thesis by simp
qed

lemma firing_slope_on_the_grid:
  "firing_slope ieee [0, 1, 4, 9, 16, 25, 36] [3 / 10000, 3 / 5000] (1 / 10000) (1 / 10000)
     = Inr (Some 60000, [Some 30000, Some 90000])"
  by (simp add: firing_slope_def firing_windows_on_the_grid quotient_3_steps quotient_6_steps
        quotient_1_step astype_int_def py_int_def np_get_def np_divide_def np_mean_def Let_def)

end
